theory Spec2Isabelle
  imports Main "HOL-Library.AList" "HOL-Library.Sublist" "HOL-Library.Word"
begin

section \<open>Ralfresh: the persistent-mode phase state machine\<close>

text \<open>
  A shallow embedding of \<^verbatim>\<open>src/hooks/ralfresh\<close> (\<^verbatim>\<open>types.ts\<close>, \<^verbatim>\<open>state.ts\<close>,
  \<^verbatim>\<open>loop.ts\<close>, \<^verbatim>\<open>index.ts\<close>). Conventions of the embedding:

  \<^item> A JavaScript value that came from \<^verbatim>\<open>JSON.parse\<close>, or is about to go through
    \<^verbatim>\<open>JSON.stringify\<close>, is a \<open>json\<close> tree. A number is a finite double whose
    value is an integer (the counters of this program), held as that integer;
    \<^verbatim>\<open>NaN\<close>, the infinities and fractions are outside the model. Adding one and
    converting to a string are the operations of doubles (\<open>jsPlusOne\<close>,
    \<open>numberToString\<close>): the sum is rounded, and the string is the shortest decimal
    that reads back as the same double. An absent property and a property holding
    \<^verbatim>\<open>undefined\<close> are both \<open>None\<close>, which is how \<^verbatim>\<open>JSON.stringify\<close> treats them. The
    keys of an object are distinct.
  \<^item> A string is a list of code units, each below 256 (a \<open>char\<close>);
    \<^verbatim>\<open>s.length\<close> is \<open>length s\<close> and \<^verbatim>\<open>s.slice(0, n)\<close> is \<open>take n s\<close>. The one text of
    the program with higher code units, the message of \<^verbatim>\<open>processRalfreshLoop\<close>, is a list
    of 16-bit words.
  \<^item> A file holds either the JSON value its text parses to, or text that
    \<^verbatim>\<open>JSON.parse\<close> rejects.
  \<^item> The file system, the environment and the clock are an explicit \<open>world\<close>
    value, passed in and returned. A call that throws in the source returns \<open>Inl\<close>.
  \<^item> The \<open>directory\<close> argument is absolute and normalised, with no slash at its end
    (the trust boundary stated in \<^verbatim>\<open>getStateFilePath\<close>), so \<^verbatim>\<open>path.resolve\<close> returns
    it unchanged and \<^verbatim>\<open>path.join\<close> puts a slash between its arguments.
\<close>

subsection \<open>JSON values and the JavaScript operations used on them\<close>

datatype json =
    JNull
  | JBool bool
  | JNum int
  | JStr string
  | JArr "json list"
  | JObj "(string \<times> json) list"

datatype js_error = TypeError

text \<open>\<^verbatim>\<open>typeof v\<close>; \<open>None\<close> is \<^verbatim>\<open>undefined\<close>.\<close>

fun typeof :: "json option \<Rightarrow> string" where
  "typeof None = ''undefined''"
| "typeof (Some JNull) = ''object''"
| "typeof (Some (JBool b)) = ''boolean''"
| "typeof (Some (JNum n)) = ''number''"
| "typeof (Some (JStr s)) = ''string''"
| "typeof (Some (JArr xs)) = ''object''"
| "typeof (Some (JObj kvs)) = ''object''"

fun isArray :: "json option \<Rightarrow> bool" where
  "isArray (Some (JArr xs)) = True"
| "isArray _ = False"

text \<open>
  \<^verbatim>\<open>obj.key\<close> for the named (non-index, non-builtin) keys this program reads. Only
  an object has such a property of its own; on an array or a primitive the read
  gives \<^verbatim>\<open>undefined\<close>. (Reading from \<^verbatim>\<open>null\<close> throws; the callers test for it first.)
\<close>

fun getProp :: "json \<Rightarrow> string \<Rightarrow> json option" where
  "getProp (JObj kvs) k = map_of kvs k"
| "getProp _ k = None"

subsection \<open>Numbers: integer-valued doubles\<close>

text \<open>The number of binary and of decimal digits of a positive integer.\<close>

function bitLength :: "int \<Rightarrow> nat" where
  "bitLength n = (if n \<le> 0 then 0 else Suc (bitLength (n div 2)))"
  by pat_completeness auto
termination
  by (relation "measure nat") auto

function decimalLength :: "int \<Rightarrow> nat" where
  "decimalLength n = (if n < 10 then 1 else Suc (decimalLength (n div 10)))"
  by pat_completeness auto
termination
  by (relation "measure nat") auto

text \<open>
  The double nearest to an integer \<open>m\<close> (IEEE 754 binary64, round to nearest, ties to
  the even significand), for \<open>m\<close> of magnitude below \<open>2^1024\<close>. Every integer of
  magnitude up to \<open>2^53\<close> is a double; beyond, the significand keeps 53 bits.
\<close>

definition roundToDouble :: "int \<Rightarrow> int" where
  "roundToDouble m =
     (let a = \<bar>m\<bar>
      in if a \<le> 2 ^ 53 then m
         else
           (let e = bitLength a - 53;
                q = a div 2 ^ e;
                r = a mod 2 ^ e;
                half = 2 ^ (e - 1);
                rounded = (if r > half \<or> (r = half \<and> odd q) then (q + 1) * 2 ^ e else q * 2 ^ e)
            in if m < 0 then - rounded else rounded))"

text \<open>\<^verbatim>\<open>x + 1\<close> (and \<^verbatim>\<open>x += 1\<close>) on a double: the exact sum, rounded.\<close>

definition jsPlusOne :: "int \<Rightarrow> int" where
  "jsPlusOne n = roundToDouble (n + 1)"

text \<open>
  \<^verbatim>\<open>String(x)\<close> for a double with an integer value, as a template literal converts
  it (ECMAScript \<^verbatim>\<open>Number::toString\<close>). The digits are those of the decimal with the
  fewest significant digits that rounds to \<open>x\<close>, the closest to \<open>x\<close> if there are
  several (the even one on a tie): \<open>shortestWith a k\<close> looks among the decimals of
  \<open>k\<close> significant digits, of which only the two around \<open>a\<close> can qualify. Below
  \<open>10^21\<close> the digits are written out, zeros included; from \<open>10^21\<close> the form is
  \<^verbatim>\<open>d.ddde+n\<close>.
\<close>

function digitsOf :: "int \<Rightarrow> string" where
  "digitsOf n =
     (if n < 10 then [char_of (48 + n)]
      else digitsOf (n div 10) @ [char_of (48 + n mod 10)])"
  by pat_completeness auto
termination
  by (relation "measure nat") auto

definition shortestWith :: "int \<Rightarrow> nat \<Rightarrow> int option" where
  "shortestWith a k =
     (let p = 10 ^ (decimalLength a - k);
          lo = (a div p) * p;
          hi = lo + p;
          okLo = (roundToDouble lo = a);
          okHi = (roundToDouble hi = a)
      in if okLo \<and> okHi then
           (if a - lo < hi - a then Some lo
            else if hi - a < a - lo then Some hi
            else if even (lo div p) then Some lo else Some hi)
         else if okLo then Some lo
         else if okHi then Some hi
         else None)"

fun shortestFrom :: "int \<Rightarrow> nat \<Rightarrow> nat \<Rightarrow> int" where
  "shortestFrom a k 0 = a"
| "shortestFrom a k (Suc fuel) =
     (case shortestWith a k of
        Some v \<Rightarrow> v
      | None \<Rightarrow> shortestFrom a (Suc k) fuel)"

definition shortestDecimal :: "int \<Rightarrow> int" where
  "shortestDecimal a = shortestFrom a 1 (decimalLength a)"

function stripZeros :: "int \<Rightarrow> int" where
  "stripZeros n = (if n \<le> 0 \<or> n mod 10 \<noteq> 0 then n else stripZeros (n div 10))"
  by pat_completeness auto
termination
  by (relation "measure nat") auto

definition naturalToString :: "int \<Rightarrow> string" where
  "naturalToString a =
     (let v = shortestDecimal a; n = decimalLength v
      in if n \<le> 21 then digitsOf v
         else
           (case digitsOf (stripZeros v) of
              [] \<Rightarrow> []
            | d # ds \<Rightarrow> (if ds = [] then [d] else d # ''.'' @ ds) @ ''e+'' @ digitsOf (int n - 1)))"

definition numberToString :: "int \<Rightarrow> string" where
  "numberToString n = (if n < 0 then ''-'' @ naturalToString (- n) else naturalToString n)"

text \<open>The 16-bit code units of a string of the model.\<close>

definition codeUnits :: "string \<Rightarrow> 16 word list" where
  "codeUnits s = map of_char s"

subsection \<open>Types (\<^verbatim>\<open>types.ts\<close>)\<close>

datatype RalfreshPhase = planning | execution | review | assess | complete | failed

fun phaseName :: "RalfreshPhase \<Rightarrow> string" where
  "phaseName planning = ''planning''"
| "phaseName execution = ''execution''"
| "phaseName review = ''review''"
| "phaseName assess = ''assess''"
| "phaseName complete = ''complete''"
| "phaseName failed = ''failed''"

text \<open>
  \<^verbatim>\<open>RalfreshState\<close> as it exists at run time. The TypeScript interface is erased; what
  \<^verbatim>\<open>readRalfreshState\<close> returns is whatever object passed \<^verbatim>\<open>isValidRalfreshState\<close>. So
  the ten members the validator tests carry the type it established (\<open>phase\<close> is any
  string, \<open>phases\<close> is any value with \<^verbatim>\<open>typeof\<close> \<^verbatim>\<open>'object'\<close>, \<open>learnings\<close> and \<open>issues\<close>
  are arrays of anything); the members it does not test (\<open>completedAt\<close>, \<open>sessionId\<close>,
  \<open>planPath\<close>, \<open>linkedModes\<close>) are any value or absent; \<open>extra\<close> holds every other
  property of the object.
\<close>

record RalfreshState =
  active :: bool
  iteration :: int
  maxIterations :: int
  phase :: string
  prompt :: string
  startedAt :: string
  completedAt :: "json option"
  sessionId :: "json option"
  notepadName :: string
  phases :: json
  learnings :: "json list"
  issues :: "json list"
  planPath :: "json option"
  linkedModes :: "json option"
  extra :: "(string \<times> json) list"

record RalfreshConfig =
  cfg_maxIterations :: "int option"
  cfg_swarmAgents :: "int option"
  cfg_skipPlanning :: "bool option"

record RalfreshLoopResult =
  shouldBlock :: bool
  message :: "16 word list"
  result_phase :: string
  metadata_iteration :: int
  metadata_maxIterations :: int

definition MAX_LEARNINGS :: nat where "MAX_LEARNINGS = 100"
definition MAX_ISSUES :: nat where "MAX_ISSUES = 100"
definition MAX_ENTRY_LENGTH :: nat where "MAX_ENTRY_LENGTH = 4096"
definition MAX_PROMPT_LENGTH :: nat where "MAX_PROMPT_LENGTH = 32768"

subsection \<open>The world: files, environment, clock, collaborators\<close>

datatype content = NotJSON | JSON json

datatype io_error = IOError

text \<open>
  The notes store (\<^verbatim>\<open>features/notepad-wisdom\<close>) and the mode registry
  (\<^verbatim>\<open>hooks/mode-registry\<close>) are collaborators outside this module. What the
  registry answers and what the notes store reads back are fields of the world.
\<close>

record PlanWisdom =
  wisdom_learnings :: "string list"
  wisdom_decisions :: "string list"
  wisdom_issues :: "string list"
  wisdom_problems :: "string list"

record world =
  files :: "string \<Rightarrow> content option"
  dirs :: "string set"
  faulty :: "string set"
  env_HOME :: "string option"
  env_USERPROFILE :: "string option"
  cwd :: string
  clock :: string
  canStartMode_allowed :: "string \<Rightarrow> string \<Rightarrow> bool"
  readPlanWisdom :: "string \<Rightarrow> string \<Rightarrow> PlanWisdom option"

text \<open>
  \<open>faulty\<close> is the set of paths on which a file-system call other than
  \<^verbatim>\<open>existsSync\<close> raises (permissions, a full disk); \<open>clock\<close> is what
  \<^verbatim>\<open>new Date().toISOString()\<close> returns.
\<close>

definition join :: "string \<Rightarrow> string \<Rightarrow> string" where
  "join a b = a @ ''/'' @ b"

definition resolve :: "string \<Rightarrow> string" where
  "resolve directory = directory"

definition existsSync :: "world \<Rightarrow> string \<Rightarrow> bool" where
  "existsSync w p = (files w p \<noteq> None \<or> p \<in> dirs w)"

definition readFileSync :: "world \<Rightarrow> string \<Rightarrow> io_error + content" where
  "readFileSync w p =
     (if p \<in> faulty w then Inl IOError
      else case files w p of None \<Rightarrow> Inl IOError | Some c \<Rightarrow> Inr c)"

definition writeFileSync :: "world \<Rightarrow> string \<Rightarrow> content \<Rightarrow> io_error + world" where
  "writeFileSync w p c =
     (if p \<in> faulty w then Inl IOError
      else Inr (w\<lparr>files := (files w)(p \<mapsto> c)\<rparr>))"

definition renameSync :: "world \<Rightarrow> string \<Rightarrow> string \<Rightarrow> io_error + world" where
  "renameSync w a b =
     (if a \<in> faulty w \<or> b \<in> faulty w then Inl IOError
      else case files w a of
             None \<Rightarrow> Inl IOError
           | Some c \<Rightarrow> Inr (w\<lparr>files := ((files w)(a := None))(b \<mapsto> c)\<rparr>))"

definition unlinkSync :: "world \<Rightarrow> string \<Rightarrow> io_error + world" where
  "unlinkSync w p =
     (if p \<in> faulty w then Inl IOError
      else case files w p of
             None \<Rightarrow> Inl IOError
           | Some c \<Rightarrow> Inr (w\<lparr>files := (files w)(p := None)\<rparr>))"

definition mkdirSync :: "world \<Rightarrow> string \<Rightarrow> io_error + world" where
  "mkdirSync w d =
     (if d \<in> faulty w then Inl IOError
      else Inr (w\<lparr>dirs := insert d (dirs w)\<rparr>))"

text \<open>
  Modelled from the spec: \<^verbatim>\<open>canStartMode\<close> of the mode registry, whose source is not
  part of this module. It is consulted before any state file is written and answers
  \<^verbatim>\<open>{allowed, message}\<close>; the model keeps \<^verbatim>\<open>allowed\<close>, as the world gives it.
\<close>

definition canStartMode :: "world \<Rightarrow> string \<Rightarrow> string \<Rightarrow> bool" where
  "canStartMode w mode directory = canStartMode_allowed w mode directory"

text \<open>
  Modelled from the spec: \<^verbatim>\<open>initPlanNotepad\<close>, \<^verbatim>\<open>addLearning\<close> and \<^verbatim>\<open>addIssue\<close> of the
  notes store, whose source is not part of this module. The state machine treats
  failures there as non-fatal and the notes are documents of their own, keyed by
  the notepad name; so a call returns, and leaves the files of this world as they
  are.
\<close>

definition initPlanNotepad :: "world \<Rightarrow> string \<Rightarrow> string \<Rightarrow> world" where
  "initPlanNotepad w name directory = w"

definition addNotepadLearning :: "world \<Rightarrow> string \<Rightarrow> string \<Rightarrow> string \<Rightarrow> world" where
  "addNotepadLearning w name learning directory = w"

definition addNotepadIssue :: "world \<Rightarrow> string \<Rightarrow> string \<Rightarrow> string \<Rightarrow> world" where
  "addNotepadIssue w name issue directory = w"

subsection \<open>State management (\<^verbatim>\<open>state.ts\<close>)\<close>

definition getStateFilePath :: "string \<Rightarrow> string" where
  "getStateFilePath directory =
     (let normalizedDir = resolve directory
      in join (join (join normalizedDir ''.omc'') ''state'') ''ralfresh-state.json'')"

definition ensureStateDir :: "world \<Rightarrow> string \<Rightarrow> io_error + world" where
  "ensureStateDir w directory =
     (let stateDir = join (join directory ''.omc'') ''state''
      in if \<not> existsSync w stateDir then mkdirSync w stateDir else Inr w)"

definition isValidRalfreshState :: "json \<Rightarrow> bool" where
  "isValidRalfreshState obj =
     (if typeof (Some obj) \<noteq> ''object'' \<or> obj = JNull then False
      else
        typeof (getProp obj ''active'') = ''boolean'' \<and>
        typeof (getProp obj ''iteration'') = ''number'' \<and>
        typeof (getProp obj ''maxIterations'') = ''number'' \<and>
        typeof (getProp obj ''phase'') = ''string'' \<and>
        typeof (getProp obj ''prompt'') = ''string'' \<and>
        typeof (getProp obj ''startedAt'') = ''string'' \<and>
        typeof (getProp obj ''notepadName'') = ''string'' \<and>
        typeof (getProp obj ''phases'') = ''object'' \<and>
        isArray (getProp obj ''learnings'') \<and>
        isArray (getProp obj ''issues''))"

text \<open>
  The members of \<^verbatim>\<open>RalfreshState\<close> that have a field of their own in the record; every
  other key of a document stays in \<open>extra\<close>.
\<close>

definition memberNames :: "string list" where
  "memberNames =
     [''active'', ''iteration'', ''maxIterations'', ''phase'', ''prompt'', ''startedAt'',
      ''completedAt'', ''sessionId'', ''notepadName'', ''phases'', ''learnings'', ''issues'',
      ''planPath'', ''linkedModes'']"

text \<open>
  The cast \<^verbatim>\<open>obj is RalfreshState\<close>: the record view of a parsed document. It changes
  nothing; it is defined exactly on the documents \<open>isValidRalfreshState\<close> accepts
  (lemma \<open>isValid_iff_asRalfreshState\<close>).
\<close>

definition asRalfreshState :: "json \<Rightarrow> RalfreshState option" where
  "asRalfreshState obj =
     (case obj of
        JObj kvs \<Rightarrow>
          (case (map_of kvs ''active'', map_of kvs ''iteration'', map_of kvs ''maxIterations'') of
             (Some (JBool a), Some (JNum i), Some (JNum m)) \<Rightarrow>
               (case (map_of kvs ''phase'', map_of kvs ''prompt'', map_of kvs ''startedAt'',
                      map_of kvs ''notepadName'') of
                  (Some (JStr ph), Some (JStr pr), Some (JStr st), Some (JStr np)) \<Rightarrow>
                    (case (map_of kvs ''learnings'', map_of kvs ''issues'') of
                       (Some (JArr ls), Some (JArr is)) \<Rightarrow>
                         (case map_of kvs ''phases'' of
                            Some phs \<Rightarrow>
                              if typeof (Some phs) = ''object'' then
                                Some \<lparr>active = a, iteration = i, maxIterations = m, phase = ph,
                                      prompt = pr, startedAt = st,
                                      completedAt = map_of kvs ''completedAt'',
                                      sessionId = map_of kvs ''sessionId'',
                                      notepadName = np,
                                      phases = phs,
                                      learnings = ls, issues = is,
                                      planPath = map_of kvs ''planPath'',
                                      linkedModes = map_of kvs ''linkedModes'',
                                      extra = filter (\<lambda>kv. fst kv \<notin> set memberNames) kvs\<rparr>
                              else None
                          | None \<Rightarrow> None)
                     | _ \<Rightarrow> None)
                | _ \<Rightarrow> None)
           | _ \<Rightarrow> None)
      | _ \<Rightarrow> None)"

text \<open>What \<^verbatim>\<open>JSON.stringify(state)\<close> writes: a member that is \<^verbatim>\<open>undefined\<close> is left out.\<close>

fun optMember :: "string \<Rightarrow> json option \<Rightarrow> (string \<times> json) list" where
  "optMember k None = []"
| "optMember k (Some v) = [(k, v)]"

definition toJSON :: "RalfreshState \<Rightarrow> json" where
  "toJSON state =
     JObj ([(''active'', JBool (active state)),
            (''iteration'', JNum (iteration state)),
            (''maxIterations'', JNum (maxIterations state)),
            (''phase'', JStr (phase state)),
            (''prompt'', JStr (prompt state)),
            (''startedAt'', JStr (startedAt state))]
           @ optMember ''completedAt'' (completedAt state)
           @ optMember ''sessionId'' (sessionId state)
           @ [(''notepadName'', JStr (notepadName state)),
              (''phases'', phases state),
              (''learnings'', JArr (learnings state)),
              (''issues'', JArr (issues state))]
           @ optMember ''planPath'' (planPath state)
           @ optMember ''linkedModes'' (linkedModes state)
           @ extra state)"

definition readRalfreshState :: "world \<Rightarrow> string \<Rightarrow> RalfreshState option" where
  "readRalfreshState w directory =
     (let stateFile = getStateFilePath directory
      in if \<not> existsSync w stateFile then None
         else case readFileSync w stateFile of
                Inl e \<Rightarrow> None
              | Inr NotJSON \<Rightarrow> None
              | Inr (JSON parsed) \<Rightarrow>
                  if \<not> isValidRalfreshState parsed then None
                  else asRalfreshState parsed)"

definition writeRalfreshState :: "world \<Rightarrow> string \<Rightarrow> RalfreshState \<Rightarrow> bool \<times> world" where
  "writeRalfreshState w directory state =
     (case ensureStateDir w directory of
        Inl e \<Rightarrow> (False, w)
      | Inr w1 \<Rightarrow>
          (let stateFile = getStateFilePath directory;
               tempFile = stateFile @ ''.tmp''
           in case writeFileSync w1 tempFile (JSON (toJSON state)) of
                Inl e \<Rightarrow> (False, w1)
              | Inr w2 \<Rightarrow>
                  (case renameSync w2 tempFile stateFile of
                     Inl e \<Rightarrow> (False, w2)
                   | Inr w3 \<Rightarrow> (True, w3))))"

definition clearRalfreshState :: "world \<Rightarrow> string \<Rightarrow> bool \<times> world" where
  "clearRalfreshState w directory =
     (let stateFile = getStateFilePath directory
      in if \<not> existsSync w stateFile then (True, w)
         else case unlinkSync w stateFile of
                Inr w1 \<Rightarrow> (True, w1)
              | Inl e \<Rightarrow> (False, w))"

definition isRalfreshActive :: "world \<Rightarrow> string \<Rightarrow> bool" where
  "isRalfreshActive w directory =
     (case readRalfreshState w directory of
        None \<Rightarrow> False
      | Some state \<Rightarrow> active state)"


text \<open>
  \<^verbatim>\<open>clearAllRalfreshSubModes\<close>. The two loops are recursions over the file lists; each
  carries \<open>success\<close> and the world.
\<close>

definition localFilesToDelete :: "string list" where
  "localFilesToDelete =
     [''plan-consensus.json'',
      ''swarm.db'',
      ''swarm.db-wal'',
      ''swarm.db-shm'',
      ''swarm-active.marker'',
      ''ultrawork-state.json'',
      ''ralph-state.json'',
      ''ralph-verification.json'']"

definition globalFiles :: "string list" where
  "globalFiles = [''ultrawork-state.json'', ''ralph-state.json'']"

fun deleteLocalFiles :: "string \<Rightarrow> string list \<Rightarrow> bool \<times> world \<Rightarrow> bool \<times> world" where
  "deleteLocalFiles stateDir [] (success, w) = (success, w)"
| "deleteLocalFiles stateDir (file # rest) (success, w) =
     (let filePath = join stateDir file
      in if existsSync w filePath then
           (case unlinkSync w filePath of
              Inr w1 \<Rightarrow> deleteLocalFiles stateDir rest (success, w1)
            | Inl e \<Rightarrow> deleteLocalFiles stateDir rest (False, w))
         else deleteLocalFiles stateDir rest (success, w))"

text \<open>
  \<^verbatim>\<open>sessionId && (state.session_id === sessionId || state.sessionId === sessionId)\<close>,
  as a truth value. An absent or empty \<open>sessionId\<close> is falsy and the right-hand side is
  not evaluated; otherwise reading a property of \<^verbatim>\<open>null\<close> throws.
\<close>

definition sessionMatches :: "string option \<Rightarrow> json \<Rightarrow> js_error + bool" where
  "sessionMatches sid state =
     (case sid of
        None \<Rightarrow> Inr False
      | Some s \<Rightarrow>
          if s = [] then Inr False
          else if state = JNull then Inl TypeError
          else Inr (getProp state ''session_id'' = Some (JStr s) \<or>
                    getProp state ''sessionId'' = Some (JStr s)))"

fun deleteGlobalFiles ::
  "string \<Rightarrow> string option \<Rightarrow> bool \<Rightarrow> string list \<Rightarrow> bool \<times> world \<Rightarrow> bool \<times> world" where
  "deleteGlobalFiles globalStateDir sid force [] (success, w) = (success, w)"
| "deleteGlobalFiles globalStateDir sid force (file # rest) (success, w) =
     (let filePath = join globalStateDir file
      in if existsSync w filePath then
           (case readFileSync w filePath of
              Inl e \<Rightarrow> deleteGlobalFiles globalStateDir sid force rest (False, w)
            | Inr NotJSON \<Rightarrow> deleteGlobalFiles globalStateDir sid force rest (False, w)
            | Inr (JSON state) \<Rightarrow>
                (case sessionMatches sid state of
                   Inl e \<Rightarrow> deleteGlobalFiles globalStateDir sid force rest (False, w)
                 | Inr matches \<Rightarrow>
                     if force \<or> matches then
                       (case unlinkSync w filePath of
                          Inr w1 \<Rightarrow> deleteGlobalFiles globalStateDir sid force rest (success, w1)
                        | Inl e \<Rightarrow> deleteGlobalFiles globalStateDir sid force rest (False, w))
                     else deleteGlobalFiles globalStateDir sid force rest (success, w)))
         else deleteGlobalFiles globalStateDir sid force rest (success, w))"

text \<open>\<^verbatim>\<open>process.env.HOME || process.env.USERPROFILE\<close>: an empty string is falsy.\<close>

definition homeDir :: "world \<Rightarrow> string option" where
  "homeDir w =
     (case env_HOME w of
        Some h \<Rightarrow> if h \<noteq> [] then Some h else env_USERPROFILE w
      | None \<Rightarrow> env_USERPROFILE w)"

definition clearAllRalfreshSubModes ::
  "world \<Rightarrow> string \<Rightarrow> string option \<Rightarrow> bool \<Rightarrow> bool \<times> world" where
  "clearAllRalfreshSubModes w directory sid force =
     (let stateDir = join (join directory ''.omc'') ''state'';
          (success, w1) = deleteLocalFiles stateDir localFilesToDelete (True, w)
      in case homeDir w1 of
           None \<Rightarrow> (success, w1)
         | Some h \<Rightarrow>
             if h = [] then (success, w1)
             else
               (let globalStateDir = join h ''.claude''
                in deleteGlobalFiles globalStateDir sid force globalFiles (success, w1)))"

subsection \<open>Phase transitions and the loop (\<^verbatim>\<open>loop.ts\<close>)\<close>

text \<open>
  \<^verbatim>\<open>VALID_TRANSITIONS\<close>, an object keyed by phase name. \<^verbatim>\<open>VALID_TRANSITIONS[k]\<close> for a
  key outside the table is \<^verbatim>\<open>undefined\<close> (or a member of \<^verbatim>\<open>Object.prototype\<close>, which
  has no \<^verbatim>\<open>includes\<close> either), so the call \<^verbatim>\<open>validNextPhases.includes(...)\<close> throws a
  \<^verbatim>\<open>TypeError\<close>.
\<close>

definition VALID_TRANSITIONS :: "(string \<times> RalfreshPhase list) list" where
  "VALID_TRANSITIONS =
     [(''planning'', [execution]),
      (''execution'', [review]),
      (''review'', [assess]),
      (''assess'', [planning, complete, failed]),
      (''complete'', []),
      (''failed'', [])]"

text \<open>
  \<^verbatim>\<open>state.phases[p].f = v\<close> (the module is strict-mode code). It throws when
  \<^verbatim>\<open>state.phases\<close> is \<^verbatim>\<open>null\<close>, and when \<^verbatim>\<open>state.phases[p]\<close> is \<^verbatim>\<open>undefined\<close>,
  \<^verbatim>\<open>null\<close> or a primitive. On an array the assignment creates a named property,
  which \<^verbatim>\<open>JSON.stringify\<close> does not write.
\<close>

fun setPhaseMember :: "json \<Rightarrow> string \<Rightarrow> string \<Rightarrow> json \<Rightarrow> js_error + json" where
  "setPhaseMember (JObj kvs) p f v =
     (case map_of kvs p of
        Some (JObj r) \<Rightarrow> Inr (JObj (AList.update p (JObj (AList.update f v r)) kvs))
      | Some (JArr xs) \<Rightarrow> Inr (JObj kvs)
      | _ \<Rightarrow> Inl TypeError)"
| "setPhaseMember _ p f v = Inl TypeError"

text \<open>
  \<^verbatim>\<open>for (const phase of Object.keys(state.phases)) state.phases[phase] = { status: 'pending' }\<close>.
  \<^verbatim>\<open>Object.keys(null)\<close> throws; the keys of an array are its indices; a number or a
  boolean has no keys; a non-empty string has read-only index keys.
\<close>

definition pendingPhase :: json where
  "pendingPhase = JObj [(''status'', JStr ''pending'')]"

fun resetPhases :: "json \<Rightarrow> js_error + json" where
  "resetPhases (JObj kvs) = Inr (JObj (map (\<lambda>kv. (fst kv, pendingPhase)) kvs))"
| "resetPhases (JArr xs) = Inr (JArr (map (\<lambda>x. pendingPhase) xs))"
| "resetPhases JNull = Inl TypeError"
| "resetPhases (JStr s) = (if s = [] then Inr (JStr s) else Inl TypeError)"
| "resetPhases v = Inr v"

definition thenE :: "'e + 'a \<Rightarrow> ('a \<Rightarrow> 'e + 'b) \<Rightarrow> 'e + 'b" where
  "thenE r f = (case r of Inl e \<Rightarrow> Inl e | Inr x \<Rightarrow> f x)"

definition transitionRalfreshPhase ::
  "world \<Rightarrow> string \<Rightarrow> RalfreshPhase \<Rightarrow> (js_error + RalfreshState option) \<times> world" where
  "transitionRalfreshPhase w directory newPhase =
     (case readRalfreshState w directory of
        None \<Rightarrow> (Inr None, w)
      | Some state \<Rightarrow>
          if \<not> active state then (Inr None, w)
          else
            (case map_of VALID_TRANSITIONS (phase state) of
               None \<Rightarrow> (Inl TypeError, w)
             | Some validNextPhases \<Rightarrow>
                 if newPhase \<notin> set validNextPhases then (Inr None, w)
                 else
                   (let now = clock w
                    in case
                         thenE (setPhaseMember (phases state) (phase state) ''status'' (JStr ''complete''))
                           (\<lambda>p1. thenE (setPhaseMember p1 (phase state) ''completedAt'' (JStr now))
                           (\<lambda>p2. thenE (setPhaseMember p2 (phaseName newPhase) ''status'' (JStr ''in_progress''))
                           (\<lambda>p3. setPhaseMember p3 (phaseName newPhase) ''startedAt'' (JStr now))))
                       of
                         Inl e \<Rightarrow> (Inl e, w)
                       | Inr p4 \<Rightarrow>
                           (let state1 = state\<lparr>phase := phaseName newPhase, phases := p4\<rparr>;
                                state2 = (if newPhase = complete \<or> newPhase = failed
                                          then state1\<lparr>active := False, completedAt := Some (JStr now)\<rparr>
                                          else state1);
                                (ok, w1) = writeRalfreshState w directory state2
                            in if ok then (Inr (Some state2), w1) else (Inr None, w1)))))"

definition incrementRalfreshIteration ::
  "world \<Rightarrow> string \<Rightarrow> string option \<Rightarrow> (js_error + RalfreshState option) \<times> world" where
  "incrementRalfreshIteration w directory sid =
     (case readRalfreshState w directory of
        None \<Rightarrow> (Inr None, w)
      | Some state \<Rightarrow>
          if \<not> active state then (Inr None, w)
          else if iteration state \<ge> maxIterations state then
            transitionRalfreshPhase w directory failed
          else
            (let now = clock w;
                 state1 = state\<lparr>iteration := jsPlusOne (iteration state)\<rparr>
             in case
                  thenE (resetPhases (phases state1))
                    (\<lambda>p1. thenE (setPhaseMember p1 ''planning'' ''status'' (JStr ''in_progress''))
                    (\<lambda>p2. setPhaseMember p2 ''planning'' ''startedAt'' (JStr now)))
                of
                  Inl e \<Rightarrow> (Inl e, w)
                | Inr p3 \<Rightarrow>
                    (let state2 = state1\<lparr>phase := ''planning'', phases := p3\<rparr>;
                         (cleared, w1) = clearAllRalfreshSubModes w directory sid False;
                         (ok, w2) = writeRalfreshState w1 directory state2
                     in if ok then (Inr (Some state2), w2) else (Inr None, w2))))"

text \<open>
  \<^verbatim>\<open>text.length > MAX_ENTRY_LENGTH ? text.slice(0, MAX_ENTRY_LENGTH - 3) + '...' : text\<close>,
  written out in both \<^verbatim>\<open>addRalfreshLearning\<close> and \<^verbatim>\<open>addRalfreshIssue\<close>.
\<close>

definition truncateEntry :: "string \<Rightarrow> string" where
  "truncateEntry text =
     (if length text > MAX_ENTRY_LENGTH
      then take (MAX_ENTRY_LENGTH - 3) text @ ''...''
      else text)"

text \<open>\<^verbatim>\<open>xs.slice(-n)\<close> for \<open>n > 0\<close>: the last \<open>n\<close> elements.\<close>

definition sliceLast :: "nat \<Rightarrow> 'a list \<Rightarrow> 'a list" where
  "sliceLast n xs = drop (length xs - n) xs"

definition addRalfreshLearning :: "world \<Rightarrow> string \<Rightarrow> string \<Rightarrow> bool \<times> world" where
  "addRalfreshLearning w directory learning =
     (case readRalfreshState w directory of
        None \<Rightarrow> (False, w)
      | Some state \<Rightarrow>
          (let truncatedLearning = truncateEntry learning;
               pushed = learnings state @ [JStr truncatedLearning];
               state1 = state\<lparr>learnings :=
                          (if length pushed > MAX_LEARNINGS then sliceLast MAX_LEARNINGS pushed
                           else pushed)\<rparr>;
               w1 = addNotepadLearning w (notepadName state1) truncatedLearning directory
           in writeRalfreshState w1 directory state1))"

definition addRalfreshIssue :: "world \<Rightarrow> string \<Rightarrow> string \<Rightarrow> bool \<times> world" where
  "addRalfreshIssue w directory issue =
     (case readRalfreshState w directory of
        None \<Rightarrow> (False, w)
      | Some state \<Rightarrow>
          (let truncatedIssue = truncateEntry issue;
               pushed = issues state @ [JStr truncatedIssue];
               state1 = state\<lparr>issues :=
                          (if length pushed > MAX_ISSUES then sliceLast MAX_ISSUES pushed
                           else pushed)\<rparr>;
               w1 = addNotepadIssue w (notepadName state1) truncatedIssue directory
           in writeRalfreshState w1 directory state1))"

text \<open>\<^verbatim>\<open>xs.join(sep)\<close>.\<close>

fun joinWith :: "string \<Rightarrow> string list \<Rightarrow> string" where
  "joinWith sep [] = []"
| "joinWith sep [x] = x"
| "joinWith sep (x # y # ys) = x @ sep @ joinWith sep (y # ys)"

definition bulletList :: "string list \<Rightarrow> string" where
  "bulletList xs = joinWith ''\<newline>'' (map (\<lambda>l. ''- '' @ l) xs)"

definition getRalfreshContext :: "world \<Rightarrow> string \<Rightarrow> string" where
  "getRalfreshContext w directory =
     (case readRalfreshState w directory of
        None \<Rightarrow> []
      | Some state \<Rightarrow>
          (let parts =
                 (case readPlanWisdom w (notepadName state) directory of
                    None \<Rightarrow> []
                  | Some wisdom \<Rightarrow>
                      (if length (wisdom_learnings wisdom) > 0
                       then [''## Previous Learnings\<newline>'' @ bulletList (wisdom_learnings wisdom)]
                       else [])
                      @ (if length (wisdom_decisions wisdom) > 0
                         then [''## Decisions Made\<newline>'' @ bulletList (wisdom_decisions wisdom)]
                         else [])
                      @ (if length (wisdom_issues wisdom) > 0
                         then [''## Known Issues\<newline>'' @ bulletList (wisdom_issues wisdom)]
                         else [])
                      @ (if length (wisdom_problems wisdom) > 0
                         then [''## Problems Encountered\<newline>'' @ bulletList (wisdom_problems wisdom)]
                         else []))
                 @ [''\<newline>## Ralfresh Status\<newline>- Iteration: '' @ numberToString (iteration state)
                    @ ''/'' @ numberToString (maxIterations state)
                    @ ''\<newline>- Phase: '' @ phase state
                    @ ''\<newline>- Original Task: '' @ prompt state]
           in joinWith ''\<newline>\<newline>'' parts))"

definition getRalfreshContinuationPrompt :: "RalfreshState \<Rightarrow> string" where
  "getRalfreshContinuationPrompt state =
     (let iterInfo = ''[Iteration '' @ numberToString (iteration state) @ ''/''
                     @ numberToString (maxIterations state) @ '']''
      in
      if phase state = ''planning'' then
        iterInfo @ '' **RALFRESH PLANNING PHASE**\<newline>'' @
        ''\<newline>'' @
        ''You are in the ralfresh planning phase. Use the /oh-my-claudecode:ralplan skill to achieve planning consensus between Planner, Architect, and Critic.\<newline>'' @
        ''\<newline>'' @
        ''Original task: '' @ prompt state @ ''\<newline>'' @
        ''\<newline>'' @
        ''DO NOT STOP until planning consensus is reached. When approved, transition to execution phase.''
      else if phase state = ''execution'' then
        iterInfo @ '' **RALFRESH EXECUTION PHASE**\<newline>'' @
        ''\<newline>'' @
        ''You are in the ralfresh execution phase. Use /oh-my-claudecode:swarm or /oh-my-claudecode:ultrawork to execute the approved plan with maximum parallelism.\<newline>'' @
        ''\<newline>'' @
        ''Original task: '' @ prompt state @ ''\<newline>'' @
        ''\<newline>'' @
        ''DO NOT STOP until all planned work is implemented. When complete, transition to review phase.''
      else if phase state = ''review'' then
        iterInfo @ '' **RALFRESH REVIEW PHASE**\<newline>'' @
        ''\<newline>'' @
        ''You are in the ralfresh review phase. Spawn the Architect agent to verify the implementation meets all requirements.\<newline>'' @
        ''\<newline>'' @
        ''Original task: '' @ prompt state @ ''\<newline>'' @
        ''\<newline>'' @
        ''The Architect MUST approve before proceeding. If rejected, capture issues and transition to assess phase.''
      else if phase state = ''assess'' then
        iterInfo @ '' **RALFRESH ASSESSMENT PHASE**\<newline>'' @
        ''\<newline>'' @
        ''The Architect has reviewed the implementation. Based on the review:\<newline>'' @
        ''\<newline>'' @
        ''- If APPROVED: Transition to 'complete' phase. Task is done.\<newline>'' @
        ''- If REJECTED with iterations remaining: Capture learnings, increment iteration, start fresh planning with wisdom.\<newline>'' @
        ''- If REJECTED and max iterations reached: Transition to 'failed' phase. Report partial completion.\<newline>'' @
        ''\<newline>'' @
        ''Original task: '' @ prompt state
      else [])"

text \<open>
  \<^verbatim>\<open>processRalfreshLoop\<close>; the value is what the returned promise resolves to. The
  two summaries start with a check mark (the code unit \<open>0x2705\<close>) and a warning sign
  (the code units \<open>0x26A0\<close>, \<open>0xFE0F\<close>).
\<close>

definition processRalfreshLoop ::
  "world \<Rightarrow> string option \<Rightarrow> string option \<Rightarrow> RalfreshLoopResult option \<times> world" where
  "processRalfreshLoop w sid directory =
     (let workingDir = (case directory of
                          Some d \<Rightarrow> if d \<noteq> [] then d else cwd w
                        | None \<Rightarrow> cwd w)
      in case readRalfreshState w workingDir of
           None \<Rightarrow> (None, w)
         | Some state \<Rightarrow>
             if \<not> active state then (None, w)
             else if phase state = ''complete'' \<or> phase state = ''failed'' then
               (let (cleared, w1) = clearRalfreshState w workingDir;
                    (reaped, w2) = clearAllRalfreshSubModes w1 workingDir sid False
                in (Some \<lparr>shouldBlock = False,
                          message =
                            (if phase state = ''complete''
                             then [0x2705]
                                  @ codeUnits ('' Ralfresh completed successfully after ''
                                      @ numberToString (iteration state) @ '' iteration(s).'')
                             else [0x26A0, 0xFE0F]
                                  @ codeUnits ('' Ralfresh failed after ''
                                      @ numberToString (iteration state)
                                      @ '' iteration(s). Max iterations reached.'')),
                          result_phase = phase state,
                          metadata_iteration = iteration state,
                          metadata_maxIterations = maxIterations state\<rparr>, w2))
             else
               (let continuationPrompt = getRalfreshContinuationPrompt state;
                    context = getRalfreshContext w workingDir
                in (Some \<lparr>shouldBlock = True,
                          message =
                            codeUnits
                              (''<ralfresh-continuation>\<newline>\<newline>'' @ continuationPrompt
                               @ ''\<newline>\<newline>''
                               @ (if context \<noteq> []
                                  then ''<ralfresh-wisdom>\<newline>'' @ context @ ''\<newline></ralfresh-wisdom>''
                                  else [])
                               @ ''\<newline>\<newline></ralfresh-continuation>''),
                          result_phase = phase state,
                          metadata_iteration = iteration state,
                          metadata_maxIterations = maxIterations state\<rparr>, w)))"

subsection \<open>Initialisation (\<^verbatim>\<open>index.ts\<close>)\<close>

definition createInitialPhases :: json where
  "createInitialPhases =
     JObj [(''planning'', JObj [(''status'', JStr ''pending'')]),
           (''execution'', JObj [(''status'', JStr ''pending'')]),
           (''review'', JObj [(''status'', JStr ''pending'')]),
           (''assess'', JObj [(''status'', JStr ''pending'')]),
           (''complete'', JObj [(''status'', JStr ''pending'')]),
           (''failed'', JObj [(''status'', JStr ''pending'')])]"

text \<open>\<^verbatim>\<open>now.replace(/[:.]/g, '-').slice(0, 19)\<close>.\<close>

definition notepadTimestamp :: "string \<Rightarrow> string" where
  "notepadTimestamp now =
     take 19 (map (\<lambda>c. if c = CHR '':'' \<or> c = CHR ''.'' then CHR ''-'' else c) now)"

definition initRalfresh ::
  "world \<Rightarrow> string \<Rightarrow> string \<Rightarrow> string option \<Rightarrow> RalfreshConfig option
     \<Rightarrow> (js_error + RalfreshState option) \<times> world" where
  "initRalfresh w directory prompt' sessionId' config =
     (if length prompt' > MAX_PROMPT_LENGTH then (Inr None, w)
      else if \<not> canStartMode w ''ralfresh'' directory then (Inr None, w)
      else
        (let now = clock w;
             timestamp = notepadTimestamp now;
             notepadName' = ''ralfresh-'' @ timestamp;
             w0 = initPlanNotepad w notepadName' directory;
             state = \<lparr>active = True,
                      iteration = 1,
                      maxIterations = (case config of
                                         None \<Rightarrow> 5
                                       | Some c \<Rightarrow> (case cfg_maxIterations c of None \<Rightarrow> 5 | Some m \<Rightarrow> m)),
                      phase = (case config of
                                 None \<Rightarrow> ''planning''
                               | Some c \<Rightarrow> if cfg_skipPlanning c = Some True then ''execution''
                                           else ''planning''),
                      prompt = prompt',
                      startedAt = now,
                      completedAt = Some JNull,
                      sessionId = map_option JStr sessionId',
                      notepadName = notepadName',
                      phases = createInitialPhases,
                      learnings = [],
                      issues = [],
                      planPath = None,
                      linkedModes = Some (JObj []),
                      extra = []\<rparr>
         in case
              thenE (setPhaseMember (phases state) (phase state) ''status'' (JStr ''in_progress''))
                (\<lambda>p1. setPhaseMember p1 (phase state) ''startedAt'' (JStr now))
            of
              Inl e \<Rightarrow> (Inl e, w0)
            | Inr p2 \<Rightarrow>
                (let state1 = state\<lparr>phases := p2\<rparr>;
                     (ok, w1) = writeRalfreshState w0 directory state1
                 in if ok then (Inr (Some state1), w1) else (Inr None, w1))))"

subsection \<open>Predicates used to state the properties\<close>

text \<open>
  The record is a faithful image of an object when \<open>phases\<close> has \<^verbatim>\<open>typeof\<close>
  \<^verbatim>\<open>'object'\<close> (what the validator demands of it) and \<open>extra\<close> holds no key that has a
  field of its own. Every state \<open>readRalfreshState\<close> returns is of this kind.
\<close>

definition wfState :: "RalfreshState \<Rightarrow> bool" where
  "wfState s =
     (typeof (Some (phases s)) = ''object'' \<and>
      list_all (\<lambda>kv. fst kv \<notin> set memberNames) (extra s))"

text \<open>
  The state file of \<open>directory\<close>, its temporary file and the state directory are not
  among the faulty paths: enough for \<open>writeRalfreshState\<close> to succeed.
\<close>

definition writable :: "world \<Rightarrow> string \<Rightarrow> bool" where
  "writable w directory =
     (getStateFilePath directory \<notin> faulty w \<and>
      getStateFilePath directory @ ''.tmp'' \<notin> faulty w \<and>
      join (join directory ''.omc'') ''state'' \<notin> faulty w)"

subsection \<open>A concrete world\<close>

text \<open>
  An empty project directory \<^verbatim>\<open>/proj\<close> with nothing faulty, and the state
  \<^verbatim>\<open>initRalfresh\<close> creates there with the default configuration.
\<close>

definition exampleWorld :: world where
  "exampleWorld =
     \<lparr>files = (\<lambda>p. None),
      dirs = {},
      faulty = {},
      env_HOME = Some ''/home/user'',
      env_USERPROFILE = None,
      cwd = ''/proj'',
      clock = ''2026-01-01T10:00:00.000Z'',
      canStartMode_allowed = (\<lambda>mode directory. True),
      readPlanWisdom = (\<lambda>name directory. None)\<rparr>"

definition examplePhases :: "(string \<times> json) list" where
  "examplePhases =
     [(''planning'', JObj [(''status'', JStr ''in_progress''),
                           (''startedAt'', JStr ''2026-01-01T10:00:00.000Z'')]),
      (''execution'', JObj [(''status'', JStr ''pending'')]),
      (''review'', JObj [(''status'', JStr ''pending'')]),
      (''assess'', JObj [(''status'', JStr ''pending'')]),
      (''complete'', JObj [(''status'', JStr ''pending'')]),
      (''failed'', JObj [(''status'', JStr ''pending'')])]"

definition exampleState :: RalfreshState where
  "exampleState =
     \<lparr>active = True,
      iteration = 1,
      maxIterations = 5,
      phase = ''planning'',
      prompt = ''build a feature'',
      startedAt = ''2026-01-01T10:00:00.000Z'',
      completedAt = Some JNull,
      sessionId = None,
      notepadName = ''ralfresh-2026-01-01T10-00-00'',
      phases = JObj examplePhases,
      learnings = [],
      issues = [],
      planPath = None,
      linkedModes = Some (JObj []),
      extra = []\<rparr>"

text \<open>The world in which \<open>state\<close> is what the state file of \<^verbatim>\<open>/proj\<close> holds.\<close>

definition worldWith :: "RalfreshState \<Rightarrow> world" where
  "worldWith state =
     exampleWorld\<lparr>files := (\<lambda>p. if p = getStateFilePath ''/proj''
                                 then Some (JSON (toJSON state)) else None)\<rparr>"

text \<open>The same instance with a phase outside the six-phase set.\<close>

definition pausedState :: RalfreshState where
  "pausedState = exampleState\<lparr>phase := ''paused''\<rparr>"

text \<open>
  \<^verbatim>\<open>initRalfresh(dir, prompt, undefined, { maxIterations: 1 })\<close> in the empty project,
  and the instance it stores: still planning, already at the ceiling.
\<close>

definition singleIterationWorld :: world where
  "singleIterationWorld =
     snd (initRalfresh exampleWorld ''/proj'' ''build a feature'' None
            (Some \<lparr>cfg_maxIterations = Some 1, cfg_swarmAgents = None, cfg_skipPlanning = None\<rparr>))"

definition ceilingState :: RalfreshState where
  "ceilingState = exampleState\<lparr>maxIterations := 1\<rparr>"

text \<open>An instance in the assess phase of its last iteration.\<close>

definition lastAssessState :: RalfreshState where
  "lastAssessState = exampleState\<lparr>iteration := 5, phase := ''assess''\<rparr>"

text \<open>
  \<^verbatim>\<open>initRalfresh(dir, prompt)\<close> in the empty project, then the transitions to
  execution, review, assess and complete; and the instance then stored: terminal
  phase, \<open>active = false\<close>, \<open>completedAt\<close> set.
\<close>

definition startedWorld :: world where
  "startedWorld = snd (initRalfresh exampleWorld ''/proj'' ''build a feature'' None None)"

definition completedWorld :: world where
  "completedWorld =
     snd (transitionRalfreshPhase
       (snd (transitionRalfreshPhase
         (snd (transitionRalfreshPhase
           (snd (transitionRalfreshPhase startedWorld ''/proj'' execution))
           ''/proj'' review))
         ''/proj'' assess))
       ''/proj'' complete)"

definition completedPhases :: "(string \<times> json) list" where
  "completedPhases =
     [(''planning'', JObj [(''status'', JStr ''complete''),
                           (''startedAt'', JStr ''2026-01-01T10:00:00.000Z''),
                           (''completedAt'', JStr ''2026-01-01T10:00:00.000Z'')]),
      (''execution'', JObj [(''status'', JStr ''complete''),
                            (''startedAt'', JStr ''2026-01-01T10:00:00.000Z''),
                            (''completedAt'', JStr ''2026-01-01T10:00:00.000Z'')]),
      (''review'', JObj [(''status'', JStr ''complete''),
                         (''startedAt'', JStr ''2026-01-01T10:00:00.000Z''),
                         (''completedAt'', JStr ''2026-01-01T10:00:00.000Z'')]),
      (''assess'', JObj [(''status'', JStr ''complete''),
                         (''startedAt'', JStr ''2026-01-01T10:00:00.000Z''),
                         (''completedAt'', JStr ''2026-01-01T10:00:00.000Z'')]),
      (''complete'', JObj [(''status'', JStr ''in_progress''),
                           (''startedAt'', JStr ''2026-01-01T10:00:00.000Z'')]),
      (''failed'', JObj [(''status'', JStr ''pending'')])]"

definition completedState :: RalfreshState where
  "completedState =
     exampleState\<lparr>active := False, phase := ''complete'',
                   completedAt := Some (JStr ''2026-01-01T10:00:00.000Z''),
                   phases := JObj completedPhases\<rparr>"

text \<open>An instance whose phase is terminal while \<open>active\<close> is still true.\<close>

definition activeCompleteState :: RalfreshState where
  "activeCompleteState = exampleState\<lparr>phase := ''complete''\<rparr>"

subsection \<open>The phase graph, as the specification words it\<close>

definition phaseGraph :: "(RalfreshPhase \<times> RalfreshPhase) set" where
  "phaseGraph =
     {(planning, execution), (execution, review), (review, assess),
      (assess, planning), (assess, complete), (assess, failed)}"

subsection \<open>Adding several entries in turn\<close>

text \<open>
  \<^verbatim>\<open>for (const text of texts) addRalfreshLearning(directory, text)\<close>, and the same for
  issues. The boolean says whether every call returned \<^verbatim>\<open>true\<close>.
\<close>

fun addLearnings :: "world \<Rightarrow> string \<Rightarrow> string list \<Rightarrow> bool \<times> world" where
  "addLearnings w directory [] = (True, w)"
| "addLearnings w directory (text # rest) =
     (let (ok, w1) = addRalfreshLearning w directory text;
          (oks, w2) = addLearnings w1 directory rest
      in (ok \<and> oks, w2))"

fun addIssues :: "world \<Rightarrow> string \<Rightarrow> string list \<Rightarrow> bool \<times> world" where
  "addIssues w directory [] = (True, w)"
| "addIssues w directory (text # rest) =
     (let (ok, w1) = addRalfreshIssue w directory text;
          (oks, w2) = addIssues w1 directory rest
      in (ok \<and> oks, w2))"

subsection \<open>The lifecycle and its invariant\<close>

definition terminalPhase :: "string \<Rightarrow> bool" where
  "terminalPhase ph = (ph = ''complete'' \<or> ph = ''failed'')"

text \<open>
  \<open>active = false\<close> iff \<open>phase\<close> is terminal and \<open>completedAt\<close> is set (present, not
  \<^verbatim>\<open>null\<close>); and each of the two alone already excludes \<open>active\<close>: a terminal phase
  is never active, and neither is an instance with \<open>completedAt\<close> set.
\<close>

definition lifecycleInvariant :: "RalfreshState \<Rightarrow> bool" where
  "lifecycleInvariant s =
     (((\<not> active s) =
       (terminalPhase (phase s) \<and> completedAt s \<noteq> None \<and> completedAt s \<noteq> Some JNull))
      \<and> (terminalPhase (phase s) \<longrightarrow> \<not> active s)
      \<and> (completedAt s \<noteq> None \<and> completedAt s \<noteq> Some JNull \<longrightarrow> \<not> active s))"

text \<open>
  The worlds the lifecycle operations reach for one directory: a successful
  \<open>initRalfresh\<close> from any world, then any calls of the five operations with any
  arguments, whatever they return, with the clock advancing in between.
\<close>

inductive lifecycle :: "string \<Rightarrow> world \<Rightarrow> bool" for directory :: string where
  started:
    "fst (initRalfresh w directory p sid cfg) = Inr (Some s) \<Longrightarrow>
     lifecycle directory (snd (initRalfresh w directory p sid cfg))"
| transitioned:
    "lifecycle directory w \<Longrightarrow> lifecycle directory (snd (transitionRalfreshPhase w directory q))"
| incremented:
    "lifecycle directory w \<Longrightarrow> lifecycle directory (snd (incrementRalfreshIteration w directory sid))"
| learned:
    "lifecycle directory w \<Longrightarrow> lifecycle directory (snd (addRalfreshLearning w directory entry))"
| reported:
    "lifecycle directory w \<Longrightarrow> lifecycle directory (snd (addRalfreshIssue w directory entry))"
| tick:
    "lifecycle directory w \<Longrightarrow> lifecycle directory (w\<lparr>clock := t\<rparr>)"

code_pred lifecycle .

section \<open>Properties\<close>

declare canStartMode_def [simp] initPlanNotepad_def [simp]
  addNotepadLearning_def [simp] addNotepadIssue_def [simp]

subsection \<open>The validator and the record view\<close>

lemma typeof_boolean: "typeof x = ''boolean'' \<longleftrightarrow> (\<exists>b. x = Some (JBool b))"
  by (cases x rule: typeof.cases) simp_all
lemma typeof_number: "typeof x = ''number'' \<longleftrightarrow> (\<exists>n. x = Some (JNum n))"
  by (cases x rule: typeof.cases) simp_all
lemma typeof_string: "typeof x = ''string'' \<longleftrightarrow> (\<exists>s. x = Some (JStr s))"
  by (cases x rule: typeof.cases) simp_all
lemma typeof_object: "typeof x = ''object'' \<longleftrightarrow> (x = Some JNull \<or> (\<exists>xs. x = Some (JArr xs)) \<or> (\<exists>kvs. x = Some (JObj kvs)))"
  by (cases x rule: typeof.cases) simp_all
lemma isArray_iff: "isArray x \<longleftrightarrow> (\<exists>xs. x = Some (JArr xs))"
  by (cases x rule: isArray.cases) simp_all

lemma isValid_asRalfreshState:
  assumes "isValidRalfreshState obj"
  shows "\<exists>s. asRalfreshState obj = Some s"
proof -
  from assms obtain kvs where obj: "obj = JObj kvs"
    by (cases obj) (simp_all add: isValidRalfreshState_def)
  from assms obj obtain a i m ph pr st np ls "is"
    where f: "map_of kvs ''active'' = Some (JBool a)"
      "map_of kvs ''iteration'' = Some (JNum i)"
      "map_of kvs ''maxIterations'' = Some (JNum m)"
      "map_of kvs ''phase'' = Some (JStr ph)"
      "map_of kvs ''prompt'' = Some (JStr pr)"
      "map_of kvs ''startedAt'' = Some (JStr st)"
      "map_of kvs ''notepadName'' = Some (JStr np)"
      "map_of kvs ''learnings'' = Some (JArr ls)"
      "map_of kvs ''issues'' = Some (JArr is)"
    and ph: "typeof (map_of kvs ''phases'') = ''object''"
    unfolding isValidRalfreshState_def
    by (auto simp: typeof_boolean typeof_number typeof_string isArray_iff)
  from ph obtain phs where "map_of kvs ''phases'' = Some phs" "typeof (Some phs) = ''object''"
    by (cases "map_of kvs ''phases''") auto
  with f obj show ?thesis
    by (simp add: asRalfreshState_def)
qed

lemma asRalfreshState_isValid:
  assumes "asRalfreshState obj = Some s"
  shows "isValidRalfreshState obj"
  using assms
  unfolding asRalfreshState_def isValidRalfreshState_def
  by (auto split: json.splits option.splits if_splits)

lemma asRalfreshState_wf:
  assumes "asRalfreshState obj = Some s"
  shows "wfState s"
  using assms
  unfolding asRalfreshState_def wfState_def
  by (auto split: json.splits option.splits if_splits simp: list_all_iff)


lemma map_of_optMember: "map_of (optMember k v) k' = (if k' = k then v else None)"
  by (cases v) simp_all

lemma filter_optMember:
  "k \<in> set memberNames \<Longrightarrow> filter (\<lambda>kv. fst kv \<notin> set memberNames) (optMember k v) = []"
  by (cases v) simp_all

lemma map_of_extra_None:
  "list_all (\<lambda>kv. fst kv \<notin> set memberNames) xs \<Longrightarrow> k \<in> set memberNames \<Longrightarrow> map_of xs k = None"
  by (induction xs) auto

lemma filter_extra_id:
  "list_all (\<lambda>kv. fst kv \<notin> set memberNames) xs \<Longrightarrow> filter (\<lambda>kv. fst kv \<notin> set memberNames) xs = xs"
  by (induction xs) auto

lemma asRalfreshState_toJSON:
  assumes "wfState s"
  shows "asRalfreshState (toJSON s) = Some s"
proof -
  from assms have ph: "typeof (Some (phases s)) = ''object''"
    and ex: "list_all (\<lambda>kv. fst kv \<notin> set memberNames) (extra s)"
    by (simp_all add: wfState_def)
  have none: "\<And>k. k \<in> set memberNames \<Longrightarrow> map_of (extra s) k = None"
    using ex by (rule map_of_extra_None)
  have mem: "\<And>k v. k \<in> set memberNames \<Longrightarrow> filter (\<lambda>kv. fst kv \<notin> set memberNames) (optMember k v) = []"
    by (rule filter_optMember)
  have names: "''active'' \<in> set memberNames" "''iteration'' \<in> set memberNames"
    "''maxIterations'' \<in> set memberNames" "''phase'' \<in> set memberNames"
    "''prompt'' \<in> set memberNames" "''startedAt'' \<in> set memberNames"
    "''completedAt'' \<in> set memberNames" "''sessionId'' \<in> set memberNames"
    "''notepadName'' \<in> set memberNames" "''phases'' \<in> set memberNames"
    "''learnings'' \<in> set memberNames" "''issues'' \<in> set memberNames"
    "''planPath'' \<in> set memberNames" "''linkedModes'' \<in> set memberNames"
    by (simp_all add: memberNames_def)
  show ?thesis
    unfolding asRalfreshState_def toJSON_def
    using ph
    by (simp add: map_add_def map_of_optMember none names mem filter_extra_id [OF ex]
             split: option.splits)
qed

lemma readRalfreshState_alt:
  "readRalfreshState w directory =
     (case files w (getStateFilePath directory) of
        Some (JSON parsed) \<Rightarrow>
          if getStateFilePath directory \<in> faulty w then None else asRalfreshState parsed
      | _ \<Rightarrow> None)"
proof -
  have "\<And>j. \<not> isValidRalfreshState j \<Longrightarrow> asRalfreshState j = None"
    using asRalfreshState_isValid by (metis option.exhaust)
  then show ?thesis
    by (auto simp: readRalfreshState_def Let_def existsSync_def readFileSync_def
        split: option.splits content.splits)
qed

lemma tmp_neq: "getStateFilePath d @ ''.tmp'' \<noteq> getStateFilePath d"
  by simp


lemma writeRalfreshState_cases:
  "writeRalfreshState w d s =
     (let sd = join (join d ''.omc'') ''state'';
          sf = getStateFilePath d;
          tmp = sf @ ''.tmp'';
          w1 = (if existsSync w sd then w else w\<lparr>dirs := insert sd (dirs w)\<rparr>);
          w2 = w1\<lparr>files := (files w)(tmp \<mapsto> JSON (toJSON s))\<rparr>
      in if \<not> existsSync w sd \<and> sd \<in> faulty w then (False, w)
         else if tmp \<in> faulty w then (False, w1)
         else if sf \<in> faulty w then (False, w2)
         else (True, w1\<lparr>files := ((files w)(tmp := None))(sf \<mapsto> JSON (toJSON s))\<rparr>))"
  by (simp add: writeRalfreshState_def ensureStateDir_def mkdirSync_def writeFileSync_def
      renameSync_def Let_def)

lemma write_frame:
  "faulty (snd (writeRalfreshState w d s)) = faulty w"
  "clock (snd (writeRalfreshState w d s)) = clock w"
  "cwd (snd (writeRalfreshState w d s)) = cwd w"
  "env_HOME (snd (writeRalfreshState w d s)) = env_HOME w"
  "env_USERPROFILE (snd (writeRalfreshState w d s)) = env_USERPROFILE w"
  "canStartMode_allowed (snd (writeRalfreshState w d s)) = canStartMode_allowed w"
  "readPlanWisdom (snd (writeRalfreshState w d s)) = readPlanWisdom w"
  by (simp_all add: writeRalfreshState_cases Let_def)


lemma write_fst:
  "fst (writeRalfreshState w d s) =
     ((existsSync w (join (join d ''.omc'') ''state'') \<or> join (join d ''.omc'') ''state'' \<notin> faulty w)
      \<and> getStateFilePath d @ ''.tmp'' \<notin> faulty w \<and> getStateFilePath d \<notin> faulty w)"
  by (simp add: writeRalfreshState_cases Let_def)

lemma write_files_success:
  "fst (writeRalfreshState w d s) \<Longrightarrow>
   files (snd (writeRalfreshState w d s)) (getStateFilePath d) = Some (JSON (toJSON s))"
  by (auto simp add: writeRalfreshState_cases Let_def split: if_splits)

lemma write_files_failure:
  "\<not> fst (writeRalfreshState w d s) \<Longrightarrow>
   files (snd (writeRalfreshState w d s)) (getStateFilePath d) = files w (getStateFilePath d)"
  by (auto simp add: writeRalfreshState_cases Let_def split: if_splits)

lemma write_success_read:
  assumes "wfState s" "fst (writeRalfreshState w d s)"
  shows "readRalfreshState (snd (writeRalfreshState w d s)) d = Some s"
proof -
  from assms(2) have "getStateFilePath d \<notin> faulty w" by (simp add: write_fst)
  with assms show ?thesis
    by (simp add: readRalfreshState_alt write_files_success write_frame asRalfreshState_toJSON)
qed

lemma write_failure_read:
  assumes "\<not> fst (writeRalfreshState w d s)"
  shows "readRalfreshState (snd (writeRalfreshState w d s)) d = readRalfreshState w d"
  using assms by (simp add: readRalfreshState_alt write_files_failure write_frame
      split: option.splits content.splits)

lemma writable_write:
  assumes "writable w d"
  shows "fst (writeRalfreshState w d s)"
  using assms by (simp add: writable_def write_fst)

lemma writable_after_write: "writable (snd (writeRalfreshState w d s)) d' = writable w d'"
  by (simp add: writable_def write_frame)

subsection \<open>The concrete world\<close>

lemma wfState_exampleState: "wfState exampleState"
  by (simp add: wfState_def exampleState_def memberNames_def)

lemma writable_exampleWorld: "writable exampleWorld d"
  by (simp add: writable_def exampleWorld_def)

lemma writable_worldWith: "writable (worldWith s) d"
  by (simp add: writable_def worldWith_def exampleWorld_def)

lemma read_worldWith: "wfState s \<Longrightarrow> readRalfreshState (worldWith s) ''/proj'' = Some s"
  by (simp add: readRalfreshState_alt worldWith_def exampleWorld_def asRalfreshState_toJSON)

text \<open>The three runs, evaluated.\<close>

lemma initRalfresh_example:
  "fst (initRalfresh exampleWorld ''/proj'' ''build a feature'' None None) = Inr (Some exampleState)"
  by code_simp

lemma read_singleIterationWorld:
  "readRalfreshState singleIterationWorld ''/proj'' = Some ceilingState"
  by code_simp

lemma read_completedWorld:
  "readRalfreshState completedWorld ''/proj'' = Some completedState"
  by code_simp

lemma transition_complete_example:
  "fst (transitionRalfreshPhase
       (snd (transitionRalfreshPhase
         (snd (transitionRalfreshPhase
           (snd (transitionRalfreshPhase startedWorld ''/proj'' execution))
           ''/proj'' review))
         ''/proj'' assess))
       ''/proj'' complete) = Inr (Some completedState)"
  by code_simp

lemma increment_example:
  "(case fst (incrementRalfreshIteration startedWorld ''/proj'' None) of
      Inr (Some s) \<Rightarrow> True | _ \<Rightarrow> False)"
  by code_simp

lemma init_again_example:
  "(case fst (initRalfresh startedWorld ''/proj'' ''once more'' None None) of
      Inr (Some s) \<Rightarrow> True | _ \<Rightarrow> False)"
  by code_simp

subsection \<open>The sub-mode reaper changes files only, and never the state file\<close>

lemma unlinkSync_Inr:
  "unlinkSync w p = Inr w1 \<Longrightarrow> w1 = w\<lparr>files := (files w)(p := None)\<rparr>"
  by (auto simp: unlinkSync_def split: if_splits option.splits)

lemma unlinkSync_ok:
  "p \<notin> faulty w \<Longrightarrow> files w p \<noteq> None \<Longrightarrow> unlinkSync w p = Inr (w\<lparr>files := (files w)(p := None)\<rparr>)"
  by (auto simp: unlinkSync_def)

lemma deleteLocalFiles_only_files:
  "snd (deleteLocalFiles sd fs (b, w)) = w\<lparr>files := files (snd (deleteLocalFiles sd fs (b, w)))\<rparr>"
proof (induction fs arbitrary: b w)
  case Nil
  show ?case by simp
next
  case (Cons f fs)
  show ?case
  proof (cases "existsSync w (join sd f)")
    case False
    with Cons [of b w] show ?thesis by simp
  next
    case True
    show ?thesis
    proof (cases "unlinkSync w (join sd f)")
      case (Inl e)
      with True Cons [of False w] show ?thesis by simp
    next
      case (Inr w1)
      then have w1: "w1 = w\<lparr>files := (files w)(join sd f := None)\<rparr>" by (rule unlinkSync_Inr)
      have "snd (deleteLocalFiles sd fs (b, w1)) = w1\<lparr>files := files (snd (deleteLocalFiles sd fs (b, w1)))\<rparr>"
        by (rule Cons)
      also have "\<dots> = w\<lparr>files := files (snd (deleteLocalFiles sd fs (b, w1)))\<rparr>"
        by (simp add: w1)
      finally show ?thesis using True Inr by simp
    qed
  qed
qed

lemma deleteLocalFiles_other:
  "p \<notin> join sd ` set fs \<Longrightarrow> files (snd (deleteLocalFiles sd fs (b, w))) p = files w p"
proof (induction fs arbitrary: b w)
  case Nil
  then show ?case by simp
next
  case (Cons f fs)
  then have p: "p \<noteq> join sd f" and rest: "p \<notin> join sd ` set fs" by auto
  show ?case
  proof (cases "existsSync w (join sd f)")
    case False
    with Cons.IH [OF rest, of b w] show ?thesis by simp
  next
    case True
    show ?thesis
    proof (cases "unlinkSync w (join sd f)")
      case (Inl e)
      with True Cons.IH [OF rest, of False w] show ?thesis by simp
    next
      case (Inr w1)
      then have w1: "w1 = w\<lparr>files := (files w)(join sd f := None)\<rparr>" by (rule unlinkSync_Inr)
      with p have "files w1 p = files w p" by simp
      with True Inr Cons.IH [OF rest, of b w1] show ?thesis by simp
    qed
  qed
qed

lemma deleteLocalFiles_None:
  "files w p = None \<Longrightarrow> files (snd (deleteLocalFiles sd fs (b, w))) p = None"
proof (induction fs arbitrary: b w)
  case Nil
  then show ?case by simp
next
  case (Cons f fs)
  show ?case
  proof (cases "existsSync w (join sd f)")
    case False
    with Cons.IH [OF Cons.prems, of b] show ?thesis by simp
  next
    case True
    show ?thesis
    proof (cases "unlinkSync w (join sd f)")
      case (Inl e)
      with True Cons.IH [OF Cons.prems, of False] show ?thesis by simp
    next
      case (Inr w1)
      then have w1: "w1 = w\<lparr>files := (files w)(join sd f := None)\<rparr>" by (rule unlinkSync_Inr)
      with Cons.prems have "files w1 p = None" by simp
      with True Inr Cons.IH [of w1 b] show ?thesis by simp
    qed
  qed
qed

lemma deleteLocalFiles_deleted:
  "p \<in> join sd ` set fs \<Longrightarrow> p \<notin> faulty w \<Longrightarrow> files (snd (deleteLocalFiles sd fs (b, w))) p = None"
proof (induction fs arbitrary: b w)
  case Nil
  then show ?case by simp
next
  case (Cons f fs)
  show ?case
  proof (cases "files w p = None")
    case True
    then show ?thesis by (rule deleteLocalFiles_None)
  next
    case nonempty: False
    show ?thesis
    proof (cases "p = join sd f")
      case True
      with nonempty have ex: "existsSync w (join sd f)" by (simp add: existsSync_def)
      from True nonempty Cons.prems(2)
      have ul: "unlinkSync w (join sd f) = Inr (w\<lparr>files := (files w)(p := None)\<rparr>)"
        by (simp add: unlinkSync_ok)
      have "files (snd (deleteLocalFiles sd fs (b, w\<lparr>files := (files w)(p := None)\<rparr>))) p = None"
        by (rule deleteLocalFiles_None) simp
      with ex ul show ?thesis by simp
    next
      case False
      with Cons.prems(1) have rest: "p \<in> join sd ` set fs" by auto
      show ?thesis
      proof (cases "existsSync w (join sd f)")
        case False
        with Cons.IH [OF rest Cons.prems(2), of b] show ?thesis by simp
      next
        case True
        show ?thesis
        proof (cases "unlinkSync w (join sd f)")
          case (Inl e)
          with True Cons.IH [OF rest Cons.prems(2), of False] show ?thesis by simp
        next
          case (Inr w1)
          then have w1: "w1 = w\<lparr>files := (files w)(join sd f := None)\<rparr>" by (rule unlinkSync_Inr)
          with Cons.prems(2) have "p \<notin> faulty w1" by simp
          with True Inr Cons.IH [OF rest, of w1 b] show ?thesis by simp
        qed
      qed
    qed
  qed
qed


lemma deleteGlobalFiles_step:
  "\<exists>b' w'. deleteGlobalFiles g sid force (f # fs) (b, w) = deleteGlobalFiles g sid force fs (b', w') \<and>
     (w' = w \<or> w' = w\<lparr>files := (files w)(join g f := None)\<rparr>)"
proof (cases "existsSync w (join g f)")
  case False
  then show ?thesis by auto
next
  case True
  show ?thesis
  proof (cases "readFileSync w (join g f)")
    case (Inl e)
    with True show ?thesis by auto
  next
    case (Inr c)
    show ?thesis
    proof (cases c)
      case NotJSON
      with True Inr show ?thesis by auto
    next
      case (JSON st)
      show ?thesis
      proof (cases "sessionMatches sid st")
        case (Inl e)
        with True Inr JSON show ?thesis by auto
      next
        case m: (Inr matches)
        show ?thesis
        proof (cases "force \<or> matches")
          case False
          with True Inr JSON m show ?thesis by auto
        next
          case fm: True
          show ?thesis
          proof (cases "unlinkSync w (join g f)")
            case (Inl e)
            with True Inr JSON m fm show ?thesis by auto
          next
            case u: (Inr w1)
            then have "w1 = w\<lparr>files := (files w)(join g f := None)\<rparr>" by (rule unlinkSync_Inr)
            with True Inr JSON m fm u show ?thesis by auto
          qed
        qed
      qed
    qed
  qed
qed

lemma deleteGlobalFiles_only_files:
  "snd (deleteGlobalFiles g sid force fs (b, w)) =
     w\<lparr>files := files (snd (deleteGlobalFiles g sid force fs (b, w)))\<rparr>"
proof (induction fs arbitrary: b w)
  case Nil
  show ?case by simp
next
  case (Cons f fs)
  obtain b' w' where
    step: "deleteGlobalFiles g sid force (f # fs) (b, w) = deleteGlobalFiles g sid force fs (b', w')"
    and w': "w' = w \<or> w' = w\<lparr>files := (files w)(join g f := None)\<rparr>"
    using deleteGlobalFiles_step by blast
  have "snd (deleteGlobalFiles g sid force fs (b', w')) =
      w'\<lparr>files := files (snd (deleteGlobalFiles g sid force fs (b', w')))\<rparr>"
    by (rule Cons)
  also have "\<dots> = w\<lparr>files := files (snd (deleteGlobalFiles g sid force fs (b', w')))\<rparr>"
    using w' by auto
  finally show ?case unfolding step .
qed

lemma deleteGlobalFiles_other:
  "p \<notin> join g ` set fs \<Longrightarrow> files (snd (deleteGlobalFiles g sid force fs (b, w))) p = files w p"
proof (induction fs arbitrary: b w)
  case Nil
  show ?case by simp
next
  case (Cons f fs)
  then have p: "p \<noteq> join g f" and rest: "p \<notin> join g ` set fs" by auto
  obtain b' w' where
    step: "deleteGlobalFiles g sid force (f # fs) (b, w) = deleteGlobalFiles g sid force fs (b', w')"
    and w': "w' = w \<or> w' = w\<lparr>files := (files w)(join g f := None)\<rparr>"
    using deleteGlobalFiles_step by blast
  from w' p have "files w' p = files w p" by auto
  with Cons.IH [OF rest, of b' w'] show ?case unfolding step by simp
qed

lemma stateFile_not_local:
  "getStateFilePath d \<notin> join (join (join d ''.omc'') ''state'') ` set localFilesToDelete"
  by (simp add: getStateFilePath_def join_def resolve_def localFilesToDelete_def)

lemma stateFile_not_global:
  "getStateFilePath d \<notin> join (join h ''.claude'') ` set globalFiles"
proof -
  have "rev (getStateFilePath d) \<noteq> rev (join (join h ''.claude'') ''ultrawork-state.json'')"
    by (simp add: getStateFilePath_def join_def resolve_def)
  moreover have "rev (getStateFilePath d) \<noteq> rev (join (join h ''.claude'') ''ralph-state.json'')"
    by (simp add: getStateFilePath_def join_def resolve_def)
  ultimately show ?thesis
    by (auto simp: globalFiles_def)
qed

lemma clearAll_only_files:
  "snd (clearAllRalfreshSubModes w d sid force) =
     w\<lparr>files := files (snd (clearAllRalfreshSubModes w d sid force))\<rparr>"
proof -
  let ?sd = "join (join d ''.omc'') ''state''"
  let ?l = "deleteLocalFiles ?sd localFilesToDelete (True, w)"
  have l: "snd ?l = w\<lparr>files := files (snd ?l)\<rparr>" by (rule deleteLocalFiles_only_files)
  have g: "\<And>h. snd (deleteGlobalFiles (join h ''.claude'') sid force globalFiles (fst ?l, snd ?l)) =
      w\<lparr>files := files (snd (deleteGlobalFiles (join h ''.claude'') sid force globalFiles (fst ?l, snd ?l)))\<rparr>"
  proof -
    fix h
    let ?g = "deleteGlobalFiles (join h ''.claude'') sid force globalFiles (fst ?l, snd ?l)"
    have "snd ?g = (snd ?l)\<lparr>files := files (snd ?g)\<rparr>" by (rule deleteGlobalFiles_only_files)
    also have "\<dots> = w\<lparr>files := files (snd ?g)\<rparr>" by (subst l) simp
    finally show "snd ?g = w\<lparr>files := files (snd ?g)\<rparr>" .
  qed
  have "env_HOME (snd ?l) = env_HOME w" by (subst l) simp
  moreover have "env_USERPROFILE (snd ?l) = env_USERPROFILE w" by (subst l) simp
  ultimately have hd: "homeDir (snd ?l) = homeDir w"
    by (simp add: homeDir_def split: option.splits)
  show ?thesis
    using l g
    by (auto simp: clearAllRalfreshSubModes_def Let_def hd split_beta split: option.splits)
qed

lemma clearAll_stateFile:
  "files (snd (clearAllRalfreshSubModes w d sid force)) (getStateFilePath d) = files w (getStateFilePath d)"
proof -
  let ?sd = "join (join d ''.omc'') ''state''"
  let ?l = "deleteLocalFiles ?sd localFilesToDelete (True, w)"
  have l: "files (snd ?l) (getStateFilePath d) = files w (getStateFilePath d)"
    by (rule deleteLocalFiles_other [OF stateFile_not_local])
  have g: "\<And>h. files (snd (deleteGlobalFiles (join h ''.claude'') sid force globalFiles (fst ?l, snd ?l)))
      (getStateFilePath d) = files (snd ?l) (getStateFilePath d)"
    by (rule deleteGlobalFiles_other [OF stateFile_not_global])
  show ?thesis
    using l g
    by (auto simp: clearAllRalfreshSubModes_def Let_def split_beta split: option.splits)
qed


subsection \<open>The transition table\<close>

lemma VALID_TRANSITIONS_phaseName:
  "map_of VALID_TRANSITIONS (phaseName p) = Some vs \<Longrightarrow> (q \<in> set vs) = ((p, q) \<in> phaseGraph)"
  by (cases p; cases q) (auto simp: VALID_TRANSITIONS_def phaseGraph_def)

lemma VALID_TRANSITIONS_defined: "\<exists>vs. map_of VALID_TRANSITIONS (phaseName p) = Some vs"
  by (cases p) (simp_all add: VALID_TRANSITIONS_def)

lemma VALID_TRANSITIONS_undefined:
  "ph \<notin> range phaseName \<Longrightarrow> map_of VALID_TRANSITIONS ph = None"
proof -
  assume a: "ph \<notin> range phaseName"
  have "ph \<noteq> phaseName planning" "ph \<noteq> phaseName execution" "ph \<noteq> phaseName review"
    "ph \<noteq> phaseName assess" "ph \<noteq> phaseName complete" "ph \<noteq> phaseName failed"
    using a by blast+
  then show ?thesis by (simp add: VALID_TRANSITIONS_def)
qed

lemma asRalfreshState_members:
  assumes "asRalfreshState obj = Some s"
  shows "getProp obj ''active'' = Some (JBool (active s))"
    and "getProp obj ''phase'' = Some (JStr (phase s))"
  using assms
  unfolding asRalfreshState_def
  by (auto split: json.splits option.splits if_splits)

section \<open>The claims\<close>

text \<open>
  C6. Round trip: when \<open>writeRalfreshState\<close> has written an instance (it returned
  \<open>true\<close>), \<open>readRalfreshState\<close> on the same directory returns that instance, equal
  field for field. It holds for every instance that is the image of an object whose
  \<open>phases\<close> member has type object, which every instance of the schema is.
\<close>

theorem C6_write_then_read:
  assumes "wfState state"
    and "writeRalfreshState w directory state = (True, w')"
  shows "readRalfreshState w' directory = Some state"
proof -
  from assms(2) have ok: "fst (writeRalfreshState w directory state)"
    and w': "w' = snd (writeRalfreshState w directory state)"
    by simp_all
  from assms(1) ok show ?thesis
    unfolding w' by (rule write_success_read)
qed

theorem C6_write_then_read_witness:
  "wfState exampleState \<and>
   writeRalfreshState exampleWorld ''/proj'' exampleState =
     (True, snd (writeRalfreshState exampleWorld ''/proj'' exampleState)) \<and>
   readRalfreshState (snd (writeRalfreshState exampleWorld ''/proj'' exampleState)) ''/proj''
     = Some exampleState"
proof -
  have ok: "fst (writeRalfreshState exampleWorld ''/proj'' exampleState)"
    by (rule writable_write [OF writable_exampleWorld])
  then have eq: "writeRalfreshState exampleWorld ''/proj'' exampleState =
      (True, snd (writeRalfreshState exampleWorld ''/proj'' exampleState))"
    by (simp add: prod_eq_iff)
  from C6_write_then_read [OF wfState_exampleState eq] wfState_exampleState eq
  show ?thesis by simp
qed

text \<open>
  C1. For a persisted active instance in phase \<open>p\<close> and a target \<open>q\<close> with \<open>(p, q)\<close>
  not an edge of the phase graph, \<open>transitionRalfreshPhase\<close> returns \<^verbatim>\<open>null\<close> and the
  world it leaves is the world it found: nothing stored is changed. The terminal
  phases have no outgoing edge, so every target is rejected from them.
\<close>

theorem C1_illegal_transition_rejected:
  assumes "readRalfreshState w directory = Some state"
    and "active state"
    and "phase state = phaseName p"
    and "(p, q) \<notin> phaseGraph"
  shows "transitionRalfreshPhase w directory q = (Inr None, w)"
proof -
  obtain vs where vs: "map_of VALID_TRANSITIONS (phaseName p) = Some vs"
    using VALID_TRANSITIONS_defined by blast
  with assms(4) have "q \<notin> set vs"
    by (simp add: VALID_TRANSITIONS_phaseName)
  with assms(1-3) vs show ?thesis
    by (simp add: transitionRalfreshPhase_def)
qed

theorem C1_illegal_transition_rejected_witness:
  "readRalfreshState (worldWith exampleState) ''/proj'' = Some exampleState \<and>
   active exampleState \<and>
   phase exampleState = phaseName planning \<and>
   (planning, complete) \<notin> phaseGraph \<and>
   transitionRalfreshPhase (worldWith exampleState) ''/proj'' complete
     = (Inr None, worldWith exampleState)"
proof -
  have r: "readRalfreshState (worldWith exampleState) ''/proj'' = Some exampleState"
    by (rule read_worldWith [OF wfState_exampleState])
  have a: "active exampleState" by (simp add: exampleState_def)
  have p: "phase exampleState = phaseName planning" by (simp add: exampleState_def)
  have e: "(planning, complete) \<notin> phaseGraph" by (simp add: phaseGraph_def)
  from C1_illegal_transition_rejected [OF r a p e] r a p e show ?thesis by simp
qed

text \<open>
  C10. The validator tests the type of \<open>phase\<close>, not its value. A stored document
  that passes it, is active and names a phase outside the six is returned by
  \<open>readRalfreshState\<close> as an instance; \<open>transitionRalfreshPhase\<close> then finds no entry
  for that phase in \<open>VALID_TRANSITIONS\<close> and throws a \<^verbatim>\<open>TypeError\<close> instead of
  returning \<^verbatim>\<open>null\<close>, whatever the target.
\<close>

theorem C10_unknown_phase_throws:
  assumes "files w (getStateFilePath directory) = Some (JSON doc)"
    and "getStateFilePath directory \<notin> faulty w"
    and "isValidRalfreshState doc"
    and "getProp doc ''active'' = Some (JBool True)"
    and "getProp doc ''phase'' = Some (JStr ph)"
    and "ph \<notin> range phaseName"
  shows "\<exists>state. readRalfreshState w directory = Some state \<and> phase state = ph \<and> active state \<and>
           transitionRalfreshPhase w directory q = (Inl TypeError, w)"
proof -
  from assms(3) obtain state where st: "asRalfreshState doc = Some state"
    using isValid_asRalfreshState by blast
  from assms(1,2) st have rd: "readRalfreshState w directory = Some state"
    by (simp add: readRalfreshState_alt)
  from asRalfreshState_members [OF st] assms(4,5)
  have f: "active state" "phase state = ph" by simp_all
  from assms(6) have "map_of VALID_TRANSITIONS ph = None"
    by (rule VALID_TRANSITIONS_undefined)
  with rd f have "transitionRalfreshPhase w directory q = (Inl TypeError, w)"
    by (simp add: transitionRalfreshPhase_def)
  with rd f show ?thesis by simp
qed

theorem C10_unknown_phase_throws_witness:
  "files (worldWith pausedState) (getStateFilePath ''/proj'') = Some (JSON (toJSON pausedState)) \<and>
   getStateFilePath ''/proj'' \<notin> faulty (worldWith pausedState) \<and>
   isValidRalfreshState (toJSON pausedState) \<and>
   getProp (toJSON pausedState) ''active'' = Some (JBool True) \<and>
   getProp (toJSON pausedState) ''phase'' = Some (JStr ''paused'') \<and>
   ''paused'' \<notin> range phaseName \<and>
   (\<exists>state. readRalfreshState (worldWith pausedState) ''/proj'' = Some state \<and>
      phase state = ''paused'' \<and> active state \<and>
      transitionRalfreshPhase (worldWith pausedState) ''/proj'' execution
        = (Inl TypeError, worldWith pausedState))"
proof -
  have wf: "wfState pausedState"
    using wfState_exampleState by (simp add: wfState_def pausedState_def)
  have h1: "files (worldWith pausedState) (getStateFilePath ''/proj'') = Some (JSON (toJSON pausedState))"
    by (simp add: worldWith_def)
  have h2: "getStateFilePath ''/proj'' \<notin> faulty (worldWith pausedState)"
    by (simp add: worldWith_def exampleWorld_def)
  have h3: "isValidRalfreshState (toJSON pausedState)"
    by (rule asRalfreshState_isValid [OF asRalfreshState_toJSON [OF wf]])
  have h4: "getProp (toJSON pausedState) ''active'' = Some (JBool True)"
    by (simp add: toJSON_def pausedState_def exampleState_def)
  have h5: "getProp (toJSON pausedState) ''phase'' = Some (JStr ''paused'')"
    by (simp add: toJSON_def pausedState_def exampleState_def)
  have h6: "''paused'' \<notin> range phaseName"
  proof
    assume "''paused'' \<in> range phaseName"
    then obtain p where "''paused'' = phaseName p" by blast
    then show False by (cases p) simp_all
  qed
  from C10_unknown_phase_throws [OF h1 h2 h3 h4 h5 h6, of execution] h1 h2 h3 h4 h5 h6
  show ?thesis by simp
qed

subsection \<open>The wisdom accumulator\<close>

lemma truncateEntry_long:
  assumes "length text > MAX_ENTRY_LENGTH"
  shows "length (truncateEntry text) = MAX_ENTRY_LENGTH"
    and "suffix ''...'' (truncateEntry text)"
    and "take (MAX_ENTRY_LENGTH - 3) (truncateEntry text) = take (MAX_ENTRY_LENGTH - 3) text"
  using assms by (simp_all add: truncateEntry_def MAX_ENTRY_LENGTH_def suffix_def)

lemma truncateEntry_short:
  "length text \<le> MAX_ENTRY_LENGTH \<Longrightarrow> truncateEntry text = text"
  by (simp add: truncateEntry_def)

lemma wfState_learnings [simp]: "wfState (s\<lparr>learnings := x\<rparr>) = wfState s"
  by (simp add: wfState_def)
lemma wfState_issues [simp]: "wfState (s\<lparr>issues := x\<rparr>) = wfState s"
  by (simp add: wfState_def)

lemma read_wf: "readRalfreshState w d = Some s \<Longrightarrow> wfState s"
  by (auto simp: readRalfreshState_alt split: option.splits content.splits if_splits
      intro: asRalfreshState_wf)

lemma sliceLast_short: "length xs \<le> n \<Longrightarrow> sliceLast n xs = xs"
  by (simp add: sliceLast_def)

lemma sliceLast_snoc:
  assumes "0 < n"
  shows "sliceLast n (sliceLast n xs @ [x]) = sliceLast n (xs @ [x])"
proof -
  have "Suc (length xs) - (length xs - n + n) + (length xs - n) = Suc (length xs) - n"
    using assms by arith
  then show ?thesis by (auto simp: sliceLast_def)
qed

lemma sliceLast_last: "0 < n \<Longrightarrow> sliceLast n (xs @ [x]) \<noteq> [] \<and> last (sliceLast n (xs @ [x])) = x"
  by (auto simp: sliceLast_def)


lemma sliceLast_append:
  "sliceLast n (sliceLast n xs @ ys) = sliceLast n (xs @ ys)"
proof -
  have "length xs - (length xs - n) + length ys - n + (length xs - n) = length xs + length ys - n"
    by arith
  moreover have "length xs - (length xs - n) + length ys - n - (length xs - (length xs - n))
    = length xs + length ys - n - length xs"
    by arith
  ultimately show ?thesis by (simp add: sliceLast_def)
qed

lemma sliceLast_suffix:
  "n \<le> length ys \<Longrightarrow> sliceLast n (xs @ ys) = drop (length ys - n) ys"
  by (simp add: sliceLast_def)

lemma addRalfreshLearning_result:
  assumes "readRalfreshState w d = Some s"
  shows "addRalfreshLearning w d text =
           writeRalfreshState w d
             (s\<lparr>learnings := sliceLast MAX_LEARNINGS (learnings s @ [JStr (truncateEntry text)])\<rparr>)"
  using assms
  by (auto simp: addRalfreshLearning_def Let_def sliceLast_short)

lemma addRalfreshIssue_result:
  assumes "readRalfreshState w d = Some s"
  shows "addRalfreshIssue w d text =
           writeRalfreshState w d
             (s\<lparr>issues := sliceLast MAX_ISSUES (issues s @ [JStr (truncateEntry text)])\<rparr>)"
  using assms
  by (auto simp: addRalfreshIssue_def Let_def sliceLast_short)

lemma addRalfreshLearning_read:
  assumes "readRalfreshState w d = Some s" "fst (addRalfreshLearning w d text)"
  shows "readRalfreshState (snd (addRalfreshLearning w d text)) d =
           Some (s\<lparr>learnings := sliceLast MAX_LEARNINGS (learnings s @ [JStr (truncateEntry text)])\<rparr>)"
  using assms read_wf [OF assms(1)]
  by (simp add: addRalfreshLearning_result write_success_read)

lemma addRalfreshIssue_read:
  assumes "readRalfreshState w d = Some s" "fst (addRalfreshIssue w d text)"
  shows "readRalfreshState (snd (addRalfreshIssue w d text)) d =
           Some (s\<lparr>issues := sliceLast MAX_ISSUES (issues s @ [JStr (truncateEntry text)])\<rparr>)"
  using assms read_wf [OF assms(1)]
  by (simp add: addRalfreshIssue_result write_success_read)

lemma addLearnings_read:
  assumes "readRalfreshState w d = Some s" "fst (addLearnings w d ts)"
  shows "readRalfreshState (snd (addLearnings w d ts)) d =
           Some (s\<lparr>learnings := (if ts = [] then learnings s
                   else sliceLast MAX_LEARNINGS (learnings s @ map (\<lambda>t. JStr (truncateEntry t)) ts))\<rparr>)"
  using assms
proof (induction ts arbitrary: w s)
  case Nil
  then show ?case by simp
next
  case (Cons t ts)
  let ?w1 = "snd (addRalfreshLearning w d t)"
  let ?s1 = "s\<lparr>learnings := sliceLast MAX_LEARNINGS (learnings s @ [JStr (truncateEntry t)])\<rparr>"
  from Cons.prems(2) have ok: "fst (addRalfreshLearning w d t)" and oks: "fst (addLearnings ?w1 d ts)"
    by (simp_all add: split_beta)
  have r1: "readRalfreshState ?w1 d = Some ?s1"
    by (rule addRalfreshLearning_read [OF Cons.prems(1) ok])
  have "readRalfreshState (snd (addLearnings ?w1 d ts)) d =
      Some (?s1\<lparr>learnings := (if ts = [] then learnings ?s1
             else sliceLast MAX_LEARNINGS (learnings ?s1 @ map (\<lambda>t. JStr (truncateEntry t)) ts))\<rparr>)"
    by (rule Cons.IH [OF r1 oks])
  then show ?case
    by (simp add: split_beta sliceLast_append)
qed

lemma addIssues_read:
  assumes "readRalfreshState w d = Some s" "fst (addIssues w d ts)"
  shows "readRalfreshState (snd (addIssues w d ts)) d =
           Some (s\<lparr>issues := (if ts = [] then issues s
                   else sliceLast MAX_ISSUES (issues s @ map (\<lambda>t. JStr (truncateEntry t)) ts))\<rparr>)"
  using assms
proof (induction ts arbitrary: w s)
  case Nil
  then show ?case by simp
next
  case (Cons t ts)
  let ?w1 = "snd (addRalfreshIssue w d t)"
  let ?s1 = "s\<lparr>issues := sliceLast MAX_ISSUES (issues s @ [JStr (truncateEntry t)])\<rparr>"
  from Cons.prems(2) have ok: "fst (addRalfreshIssue w d t)" and oks: "fst (addIssues ?w1 d ts)"
    by (simp_all add: split_beta)
  have r1: "readRalfreshState ?w1 d = Some ?s1"
    by (rule addRalfreshIssue_read [OF Cons.prems(1) ok])
  have "readRalfreshState (snd (addIssues ?w1 d ts)) d =
      Some (?s1\<lparr>issues := (if ts = [] then issues ?s1
             else sliceLast MAX_ISSUES (issues ?s1 @ map (\<lambda>t. JStr (truncateEntry t)) ts))\<rparr>)"
    by (rule Cons.IH [OF r1 oks])
  then show ?case
    by (simp add: split_beta sliceLast_append)
qed

lemma addLearnings_writable:
  assumes "readRalfreshState w d = Some s" "writable w d"
  shows "fst (addLearnings w d ts)"
  using assms
proof (induction ts arbitrary: w s)
  case Nil
  show ?case by simp
next
  case (Cons t ts)
  have ok: "fst (addRalfreshLearning w d t)"
    by (simp add: addRalfreshLearning_result [OF Cons.prems(1)] writable_write [OF Cons.prems(2)])
  have wr: "writable (snd (addRalfreshLearning w d t)) d"
    using Cons.prems(2) by (simp add: addRalfreshLearning_result [OF Cons.prems(1)] writable_after_write)
  from Cons.IH [OF addRalfreshLearning_read [OF Cons.prems(1) ok] wr] ok
  show ?case by (simp add: split_beta)
qed

lemma addIssues_writable:
  assumes "readRalfreshState w d = Some s" "writable w d"
  shows "fst (addIssues w d ts)"
  using assms
proof (induction ts arbitrary: w s)
  case Nil
  show ?case by simp
next
  case (Cons t ts)
  have ok: "fst (addRalfreshIssue w d t)"
    by (simp add: addRalfreshIssue_result [OF Cons.prems(1)] writable_write [OF Cons.prems(2)])
  have wr: "writable (snd (addRalfreshIssue w d t)) d"
    using Cons.prems(2) by (simp add: addRalfreshIssue_result [OF Cons.prems(1)] writable_after_write)
  from Cons.IH [OF addRalfreshIssue_read [OF Cons.prems(1) ok] wr] ok
  show ?case by (simp add: split_beta)
qed

text \<open>
  C7. On an existing instance, when \<open>addRalfreshLearning\<close> (or \<open>addRalfreshIssue\<close>)
  has stored the instance (it returned \<open>true\<close>), the entry it appended is the last of
  the stored sequence; for a text longer than \<open>MAX_ENTRY_LENGTH\<close> that entry is the
  first \<open>MAX_ENTRY_LENGTH - 3\<close> code units of the text followed by \<^verbatim>\<open>...\<close>, so it has
  length exactly \<open>MAX_ENTRY_LENGTH\<close> and ends in \<^verbatim>\<open>...\<close>; and a text of at most
  \<open>MAX_ENTRY_LENGTH\<close> is stored as it is.
\<close>

theorem C7_entry_truncated:
  assumes "readRalfreshState w directory = Some state"
  shows "(fst (addRalfreshLearning w directory text) \<longrightarrow>
           (\<exists>state' e. readRalfreshState (snd (addRalfreshLearning w directory text)) directory = Some state'
              \<and> learnings state' \<noteq> [] \<and> last (learnings state') = JStr e
              \<and> (MAX_ENTRY_LENGTH < length text \<longrightarrow>
                    e = take (MAX_ENTRY_LENGTH - 3) text @ ''...''
                    \<and> length e = MAX_ENTRY_LENGTH \<and> suffix ''...'' e)
              \<and> (length text \<le> MAX_ENTRY_LENGTH \<longrightarrow> e = text)))
       \<and> (fst (addRalfreshIssue w directory text) \<longrightarrow>
           (\<exists>state' e. readRalfreshState (snd (addRalfreshIssue w directory text)) directory = Some state'
              \<and> issues state' \<noteq> [] \<and> last (issues state') = JStr e
              \<and> (MAX_ENTRY_LENGTH < length text \<longrightarrow>
                    e = take (MAX_ENTRY_LENGTH - 3) text @ ''...''
                    \<and> length e = MAX_ENTRY_LENGTH \<and> suffix ''...'' e)
              \<and> (length text \<le> MAX_ENTRY_LENGTH \<longrightarrow> e = text)))"
proof -
  have e: "(MAX_ENTRY_LENGTH < length text \<longrightarrow>
              truncateEntry text = take (MAX_ENTRY_LENGTH - 3) text @ ''...''
              \<and> length (truncateEntry text) = MAX_ENTRY_LENGTH \<and> suffix ''...'' (truncateEntry text))
         \<and> (length text \<le> MAX_ENTRY_LENGTH \<longrightarrow> truncateEntry text = text)"
    using truncateEntry_long(1,2) truncateEntry_short
    by (auto simp: truncateEntry_def)
  have l: "0 < MAX_LEARNINGS" and i: "0 < MAX_ISSUES"
    by (simp_all add: MAX_LEARNINGS_def MAX_ISSUES_def)
  show ?thesis
  proof (intro conjI impI)
    assume ok: "fst (addRalfreshLearning w directory text)"
    let ?s' = "state\<lparr>learnings := sliceLast MAX_LEARNINGS (learnings state @ [JStr (truncateEntry text)])\<rparr>"
    have "readRalfreshState (snd (addRalfreshLearning w directory text)) directory = Some ?s'
          \<and> learnings ?s' \<noteq> [] \<and> last (learnings ?s') = JStr (truncateEntry text)"
      using addRalfreshLearning_read [OF assms ok] sliceLast_last [OF l] by simp
    with e show "\<exists>state' e. readRalfreshState (snd (addRalfreshLearning w directory text)) directory = Some state'
              \<and> learnings state' \<noteq> [] \<and> last (learnings state') = JStr e
              \<and> (MAX_ENTRY_LENGTH < length text \<longrightarrow>
                    e = take (MAX_ENTRY_LENGTH - 3) text @ ''...''
                    \<and> length e = MAX_ENTRY_LENGTH \<and> suffix ''...'' e)
              \<and> (length text \<le> MAX_ENTRY_LENGTH \<longrightarrow> e = text)"
      by blast
  next
    assume ok: "fst (addRalfreshIssue w directory text)"
    let ?s' = "state\<lparr>issues := sliceLast MAX_ISSUES (issues state @ [JStr (truncateEntry text)])\<rparr>"
    have "readRalfreshState (snd (addRalfreshIssue w directory text)) directory = Some ?s'
          \<and> issues ?s' \<noteq> [] \<and> last (issues ?s') = JStr (truncateEntry text)"
      using addRalfreshIssue_read [OF assms ok] sliceLast_last [OF i] by simp
    with e show "\<exists>state' e. readRalfreshState (snd (addRalfreshIssue w directory text)) directory = Some state'
              \<and> issues state' \<noteq> [] \<and> last (issues state') = JStr e
              \<and> (MAX_ENTRY_LENGTH < length text \<longrightarrow>
                    e = take (MAX_ENTRY_LENGTH - 3) text @ ''...''
                    \<and> length e = MAX_ENTRY_LENGTH \<and> suffix ''...'' e)
              \<and> (length text \<le> MAX_ENTRY_LENGTH \<longrightarrow> e = text)"
      by blast
  qed
qed

theorem C7_entry_truncated_witness:
  "readRalfreshState (worldWith exampleState) ''/proj'' = Some exampleState \<and>
   MAX_ENTRY_LENGTH < length (replicate 5000 CHR ''x'') \<and>
   fst (addRalfreshLearning (worldWith exampleState) ''/proj'' (replicate 5000 CHR ''x'')) \<and>
   fst (addRalfreshIssue (worldWith exampleState) ''/proj'' (replicate 5000 CHR ''x'')) \<and>
   (\<exists>state' e. readRalfreshState
        (snd (addRalfreshLearning (worldWith exampleState) ''/proj'' (replicate 5000 CHR ''x''))) ''/proj''
        = Some state'
      \<and> learnings state' \<noteq> [] \<and> last (learnings state') = JStr e
      \<and> e = replicate 4093 CHR ''x'' @ ''...''
      \<and> length e = MAX_ENTRY_LENGTH \<and> suffix ''...'' e) \<and>
   (\<exists>state' e. readRalfreshState
        (snd (addRalfreshIssue (worldWith exampleState) ''/proj'' (replicate 5000 CHR ''x''))) ''/proj''
        = Some state'
      \<and> issues state' \<noteq> [] \<and> last (issues state') = JStr e
      \<and> e = replicate 4093 CHR ''x'' @ ''...''
      \<and> length e = MAX_ENTRY_LENGTH \<and> suffix ''...'' e)"
proof -
  have r: "readRalfreshState (worldWith exampleState) ''/proj'' = Some exampleState"
    by (rule read_worldWith [OF wfState_exampleState])
  have long: "MAX_ENTRY_LENGTH < length (replicate 5000 CHR ''x'')"
    by (simp add: MAX_ENTRY_LENGTH_def)
  have l: "fst (addRalfreshLearning (worldWith exampleState) ''/proj'' (replicate 5000 CHR ''x''))"
    by (simp add: addRalfreshLearning_result [OF r] writable_write [OF writable_worldWith])
  have i: "fst (addRalfreshIssue (worldWith exampleState) ''/proj'' (replicate 5000 CHR ''x''))"
    by (simp add: addRalfreshIssue_result [OF r] writable_write [OF writable_worldWith])
  have tk: "take (MAX_ENTRY_LENGTH - 3) (replicate 5000 CHR ''x'') = replicate 4093 CHR ''x''"
    by (simp add: MAX_ENTRY_LENGTH_def)
  from C7_entry_truncated [OF r, of "replicate 5000 CHR ''x''"] r long l i
  show ?thesis unfolding tk by (simp only: simp_thms) blast
qed


text \<open>
  C8. On an existing instance, after \<open>MAX_LEARNINGS + 10\<close> learnings (or
  \<open>MAX_ISSUES + 10\<close> issues) have been added, every call returning \<open>true\<close>, the stored
  sequence has exactly \<open>MAX_LEARNINGS\<close> (\<open>MAX_ISSUES\<close>) entries: the entries of the last
  \<open>MAX_LEARNINGS\<close> texts added, in the order they were added. The first ten added,
  and everything stored before, have been evicted.
\<close>

theorem C8_fifo_eviction:
  assumes "readRalfreshState w directory = Some state"
  shows "(length texts = MAX_LEARNINGS + 10 \<and> fst (addLearnings w directory texts) \<longrightarrow>
           (\<exists>state'. readRalfreshState (snd (addLearnings w directory texts)) directory = Some state'
              \<and> length (learnings state') = MAX_LEARNINGS
              \<and> learnings state' = map (\<lambda>t. JStr (truncateEntry t)) (drop 10 texts)))
       \<and> (length texts = MAX_ISSUES + 10 \<and> fst (addIssues w directory texts) \<longrightarrow>
           (\<exists>state'. readRalfreshState (snd (addIssues w directory texts)) directory = Some state'
              \<and> length (issues state') = MAX_ISSUES
              \<and> issues state' = map (\<lambda>t. JStr (truncateEntry t)) (drop 10 texts)))"
proof (intro conjI impI)
  assume a: "length texts = MAX_LEARNINGS + 10 \<and> fst (addLearnings w directory texts)"
  then have ne: "texts \<noteq> []" by (auto simp: MAX_LEARNINGS_def)
  from a have n: "MAX_LEARNINGS \<le> length (map (\<lambda>t. JStr (truncateEntry t)) texts)" by simp
  have "sliceLast MAX_LEARNINGS (learnings state @ map (\<lambda>t. JStr (truncateEntry t)) texts)
      = map (\<lambda>t. JStr (truncateEntry t)) (drop 10 texts)"
    using a by (simp add: sliceLast_suffix [OF n] drop_map)
  with addLearnings_read [OF assms, of texts] a ne
  show "\<exists>state'. readRalfreshState (snd (addLearnings w directory texts)) directory = Some state'
              \<and> length (learnings state') = MAX_LEARNINGS
              \<and> learnings state' = map (\<lambda>t. JStr (truncateEntry t)) (drop 10 texts)"
    by simp
next
  assume a: "length texts = MAX_ISSUES + 10 \<and> fst (addIssues w directory texts)"
  then have ne: "texts \<noteq> []" by (auto simp: MAX_ISSUES_def)
  from a have n: "MAX_ISSUES \<le> length (map (\<lambda>t. JStr (truncateEntry t)) texts)" by simp
  have "sliceLast MAX_ISSUES (issues state @ map (\<lambda>t. JStr (truncateEntry t)) texts)
      = map (\<lambda>t. JStr (truncateEntry t)) (drop 10 texts)"
    using a by (simp add: sliceLast_suffix [OF n] drop_map)
  with addIssues_read [OF assms, of texts] a ne
  show "\<exists>state'. readRalfreshState (snd (addIssues w directory texts)) directory = Some state'
              \<and> length (issues state') = MAX_ISSUES
              \<and> issues state' = map (\<lambda>t. JStr (truncateEntry t)) (drop 10 texts)"
    by simp
qed


theorem C8_fifo_eviction_witness:
  "readRalfreshState (worldWith exampleState) ''/proj'' = Some exampleState \<and>
   length (replicate 110 ''note'') = MAX_LEARNINGS + 10 \<and>
   length (replicate 110 ''note'') = MAX_ISSUES + 10 \<and>
   fst (addLearnings (worldWith exampleState) ''/proj'' (replicate 110 ''note'')) \<and>
   fst (addIssues (worldWith exampleState) ''/proj'' (replicate 110 ''note'')) \<and>
   (\<exists>state'. readRalfreshState
        (snd (addLearnings (worldWith exampleState) ''/proj'' (replicate 110 ''note''))) ''/proj''
        = Some state'
      \<and> length (learnings state') = MAX_LEARNINGS
      \<and> learnings state' = map (\<lambda>t. JStr (truncateEntry t)) (drop 10 (replicate 110 ''note''))) \<and>
   (\<exists>state'. readRalfreshState
        (snd (addIssues (worldWith exampleState) ''/proj'' (replicate 110 ''note''))) ''/proj''
        = Some state'
      \<and> length (issues state') = MAX_ISSUES
      \<and> issues state' = map (\<lambda>t. JStr (truncateEntry t)) (drop 10 (replicate 110 ''note'')))"
proof -
  have r: "readRalfreshState (worldWith exampleState) ''/proj'' = Some exampleState"
    by (rule read_worldWith [OF wfState_exampleState])
  have n1: "length (replicate 110 ''note'') = MAX_LEARNINGS + 10"
    by (simp add: MAX_LEARNINGS_def)
  have n2: "length (replicate 110 ''note'') = MAX_ISSUES + 10"
    by (simp add: MAX_ISSUES_def)
  have l: "fst (addLearnings (worldWith exampleState) ''/proj'' (replicate 110 ''note''))"
    by (rule addLearnings_writable [OF r writable_worldWith])
  have i: "fst (addIssues (worldWith exampleState) ''/proj'' (replicate 110 ''note''))"
    by (rule addIssues_writable [OF r writable_worldWith])
  from C8_fifo_eviction [OF r, of "replicate 110 ''note''"] r n1 n2 l i
  show ?thesis by (simp only: simp_thms)
qed

subsection \<open>Phase records and initialisation\<close>

lemma thenE_Inr [simp]: "thenE (Inr x) f = f x"
  by (simp add: thenE_def)

lemma thenE_Inl [simp]: "thenE (Inl e) f = Inl e"
  by (simp add: thenE_def)

lemma thenE_eq_Inr: "thenE r f = Inr y \<longleftrightarrow> (\<exists>x. r = Inr x \<and> f x = Inr y)"
  by (cases r) simp_all

lemma setPhaseMember_ok:
  "map_of kvs p = Some (JObj r) \<Longrightarrow>
   setPhaseMember (JObj kvs) p f v = Inr (JObj (AList.update p (JObj (AList.update f v r)) kvs))"
  by simp

lemma setPhaseMember_Inr:
  "setPhaseMember ph p f v = Inr ph' \<Longrightarrow> \<exists>kvs. ph' = JObj kvs"
  by (cases ph) (auto split: option.splits json.splits)

lemma setPhaseMember_typeof:
  "setPhaseMember ph p f v = Inr ph' \<Longrightarrow> typeof (Some ph') = ''object''"
  by (auto dest: setPhaseMember_Inr)

lemma wfState_phases: "wfState (s\<lparr>phases := ph\<rparr>) = (typeof (Some ph) = ''object'' \<and> list_all (\<lambda>kv. fst kv \<notin> set memberNames) (extra s))"
  by (simp add: wfState_def)

lemma initial_phase_started:
  assumes "ph = ''planning'' \<or> ph = ''execution''"
  shows "\<exists>p2. thenE (setPhaseMember createInitialPhases ph ''status'' (JStr ''in_progress''))
           (\<lambda>p1. setPhaseMember p1 ph ''startedAt'' (JStr now)) = Inr (JObj p2)"
  using assms by (auto simp: createInitialPhases_def)

lemma initRalfresh_accepts:
  assumes "length p \<le> MAX_PROMPT_LENGTH" "canStartMode_allowed w ''ralfresh'' d"
  shows "\<exists>s. initRalfresh w d p sid cfg =
           (if fst (writeRalfreshState w d s) then Inr (Some s) else Inr None,
            snd (writeRalfreshState w d s))
         \<and> wfState s \<and> prompt s = p \<and> active s \<and> iteration s = 1
         \<and> (phase s = ''planning'' \<or> phase s = ''execution'') \<and> completedAt s = Some JNull
         \<and> learnings s = [] \<and> issues s = []"
proof -
  define ph where "ph = (case cfg of None \<Rightarrow> ''planning''
      | Some c \<Rightarrow> if cfg_skipPlanning c = Some True then ''execution'' else ''planning'')"
  have ph: "ph = ''planning'' \<or> ph = ''execution''"
    by (simp add: ph_def split: option.splits)
  obtain p2 where p2: "thenE (setPhaseMember createInitialPhases ph ''status'' (JStr ''in_progress''))
           (\<lambda>p1. setPhaseMember p1 ph ''startedAt'' (JStr (clock w))) = Inr (JObj p2)"
    using initial_phase_started [OF ph] by blast
  define s0 where "s0 =
      \<lparr>active = True, iteration = 1,
       maxIterations = (case cfg of None \<Rightarrow> 5
                        | Some c \<Rightarrow> (case cfg_maxIterations c of None \<Rightarrow> 5 | Some m \<Rightarrow> m)),
       phase = ph, prompt = p, startedAt = clock w, completedAt = Some JNull,
       sessionId = map_option JStr sid,
       notepadName = ''ralfresh-'' @ notepadTimestamp (clock w),
       phases = JObj p2, learnings = [], issues = [], planPath = None,
       linkedModes = Some (JObj []), extra = []\<rparr>"
  have "initRalfresh w d p sid cfg =
           (if fst (writeRalfreshState w d s0) then Inr (Some s0) else Inr None,
            snd (writeRalfreshState w d s0))"
    using assms p2
    unfolding initRalfresh_def Let_def ph_def [symmetric]
    by (simp add: split_beta s0_def)
  moreover have "wfState s0 \<and> prompt s0 = p \<and> active s0 \<and> iteration s0 = 1
         \<and> (phase s0 = ''planning'' \<or> phase s0 = ''execution'') \<and> completedAt s0 = Some JNull
         \<and> learnings s0 = [] \<and> issues s0 = []"
    using ph by (simp add: s0_def wfState_def)
  ultimately show ?thesis by blast
qed

lemma initRalfresh_rejects:
  "MAX_PROMPT_LENGTH < length p \<Longrightarrow> initRalfresh w d p sid cfg = (Inr None, w)"
  by (simp add: initRalfresh_def)

text \<open>
  C9. \<open>initRalfresh\<close> accepts a prompt of length up to and including
  \<open>MAX_PROMPT_LENGTH\<close>: when the mode registry allows the start and the state file
  can be written, it returns an instance whose prompt is the input, and that
  instance is what the state file then holds. For a prompt of length
  \<open>MAX_PROMPT_LENGTH + 1\<close> or more it returns \<^verbatim>\<open>null\<close> and leaves the world as it was.
\<close>

theorem C9_prompt_length_bound:
  "(length p \<le> MAX_PROMPT_LENGTH \<and> canStartMode_allowed w ''ralfresh'' directory \<and> writable w directory \<longrightarrow>
      (\<exists>state w'. initRalfresh w directory p sid cfg = (Inr (Some state), w')
         \<and> prompt state = p \<and> readRalfreshState w' directory = Some state))
   \<and> (MAX_PROMPT_LENGTH < length p \<longrightarrow> initRalfresh w directory p sid cfg = (Inr None, w))"
proof (intro conjI impI)
  assume a: "length p \<le> MAX_PROMPT_LENGTH \<and> canStartMode_allowed w ''ralfresh'' directory \<and> writable w directory"
  then obtain s where s: "initRalfresh w directory p sid cfg =
           (if fst (writeRalfreshState w directory s) then Inr (Some s) else Inr None,
            snd (writeRalfreshState w directory s))" "wfState s" "prompt s = p"
    using initRalfresh_accepts [of p w directory sid cfg] by blast
  from a have ok: "fst (writeRalfreshState w directory s)" by (simp add: writable_write)
  with s write_success_read [OF s(2) ok]
  show "\<exists>state w'. initRalfresh w directory p sid cfg = (Inr (Some state), w')
         \<and> prompt state = p \<and> readRalfreshState w' directory = Some state"
    by simp
next
  assume "MAX_PROMPT_LENGTH < length p"
  then show "initRalfresh w directory p sid cfg = (Inr None, w)" by (rule initRalfresh_rejects)
qed

theorem C9_prompt_length_bound_witness:
  "length (replicate 32768 CHR ''x'') \<le> MAX_PROMPT_LENGTH \<and>
   canStartMode_allowed exampleWorld ''ralfresh'' ''/proj'' \<and> writable exampleWorld ''/proj'' \<and>
   (\<exists>state w'. initRalfresh exampleWorld ''/proj'' (replicate 32768 CHR ''x'') None None = (Inr (Some state), w')
      \<and> prompt state = replicate 32768 CHR ''x'' \<and> readRalfreshState w' ''/proj'' = Some state) \<and>
   MAX_PROMPT_LENGTH < length (replicate 32769 CHR ''x'') \<and>
   initRalfresh exampleWorld ''/proj'' (replicate 32769 CHR ''x'') None None = (Inr None, exampleWorld)"
proof -
  have h1: "length (replicate 32768 CHR ''x'') \<le> MAX_PROMPT_LENGTH"
    by (simp add: MAX_PROMPT_LENGTH_def)
  have h2: "canStartMode_allowed exampleWorld ''ralfresh'' ''/proj''"
    by (simp add: exampleWorld_def)
  have h3: "writable exampleWorld ''/proj''" by (rule writable_exampleWorld)
  have h4: "MAX_PROMPT_LENGTH < length (replicate 32769 CHR ''x'')"
    by (simp add: MAX_PROMPT_LENGTH_def)
  from C9_prompt_length_bound [of "replicate 32768 CHR ''x''" exampleWorld "''/proj''" None None]
    C9_prompt_length_bound [of "replicate 32769 CHR ''x''" exampleWorld "''/proj''" None None] h1 h2 h3 h4
  show ?thesis by (simp only: simp_thms)
qed

subsection \<open>Outcomes of a transition and of an increment\<close>

lemma js_error_eq: "(e :: js_error) = TypeError"
  by (cases e) simp

lemma thenE_setPhaseMember_typeof:
  "thenE r (\<lambda>x. setPhaseMember x p f v) = Inr y \<Longrightarrow> typeof (Some y) = ''object''"
  by (auto simp: thenE_eq_Inr dest: setPhaseMember_typeof)

lemma transition_outcome:
  assumes "readRalfreshState w d = Some s"
  shows "transitionRalfreshPhase w d q = (Inl TypeError, w) \<or>
         transitionRalfreshPhase w d q = (Inr None, w) \<or>
         (\<exists>s2. active s \<and> wfState s2 \<and> phase s2 = phaseName q
            \<and> active s2 = (q \<noteq> complete \<and> q \<noteq> failed)
            \<and> (q = complete \<or> q = failed \<longrightarrow> completedAt s2 = Some (JStr (clock w)))
            \<and> (q \<noteq> complete \<and> q \<noteq> failed \<longrightarrow> completedAt s2 = completedAt s)
            \<and> iteration s2 = iteration s \<and> maxIterations s2 = maxIterations s
            \<and> (\<exists>vs. map_of VALID_TRANSITIONS (phase s) = Some vs \<and> q \<in> set vs)
            \<and> transitionRalfreshPhase w d q =
                 (if fst (writeRalfreshState w d s2) then Inr (Some s2) else Inr None,
                  snd (writeRalfreshState w d s2)))"
proof (cases "active s")
  case False
  with assms show ?thesis by (simp add: transitionRalfreshPhase_def)
next
  case act: True
  show ?thesis
  proof (cases "map_of VALID_TRANSITIONS (phase s)")
    case None
    with assms act show ?thesis by (simp add: transitionRalfreshPhase_def)
  next
    case (Some vs)
    show ?thesis
    proof (cases "q \<in> set vs")
      case False
      with assms act Some show ?thesis by (simp add: transitionRalfreshPhase_def)
    next
      case mem: True
      let ?chain = "thenE (setPhaseMember (phases s) (phase s) ''status'' (JStr ''complete''))
                           (\<lambda>p1. thenE (setPhaseMember p1 (phase s) ''completedAt'' (JStr (clock w)))
                           (\<lambda>p2. thenE (setPhaseMember p2 (phaseName q) ''status'' (JStr ''in_progress''))
                           (\<lambda>p3. setPhaseMember p3 (phaseName q) ''startedAt'' (JStr (clock w)))))"
      show ?thesis
      proof (cases ?chain)
        case (Inl e)
        with assms act Some mem have "transitionRalfreshPhase w d q = (Inl e, w)"
          by (simp add: transitionRalfreshPhase_def Let_def)
        then show ?thesis by (simp add: js_error_eq [of e])
      next
        case (Inr p4)
        then have obj: "typeof (Some p4) = ''object''"
          by (auto simp: thenE_eq_Inr dest: setPhaseMember_typeof)
        from assms have wf: "wfState s" by (rule read_wf)
        define s2 where "s2 = (if q = complete \<or> q = failed
            then s\<lparr>phase := phaseName q, phases := p4, active := False, completedAt := Some (JStr (clock w))\<rparr>
            else s\<lparr>phase := phaseName q, phases := p4\<rparr>)"
        have tr: "transitionRalfreshPhase w d q =
                 (if fst (writeRalfreshState w d s2) then Inr (Some s2) else Inr None,
                  snd (writeRalfreshState w d s2))"
          using assms act Some mem Inr
          by (simp add: transitionRalfreshPhase_def Let_def split_beta s2_def)
        have "wfState s2 \<and> phase s2 = phaseName q
            \<and> active s2 = (q \<noteq> complete \<and> q \<noteq> failed)
            \<and> (q = complete \<or> q = failed \<longrightarrow> completedAt s2 = Some (JStr (clock w)))
            \<and> (q \<noteq> complete \<and> q \<noteq> failed \<longrightarrow> completedAt s2 = completedAt s)
            \<and> iteration s2 = iteration s \<and> maxIterations s2 = maxIterations s"
          using wf obj act by (auto simp: s2_def wfState_def)
        with tr act Some mem show ?thesis by blast
      qed
    qed
  qed
qed


lemma clearAll_frame:
  "faulty (snd (clearAllRalfreshSubModes w d sid force)) = faulty w"
  "dirs (snd (clearAllRalfreshSubModes w d sid force)) = dirs w"
  "clock (snd (clearAllRalfreshSubModes w d sid force)) = clock w"
  by (subst clearAll_only_files, simp)+

lemma read_cong:
  assumes "files w' (getStateFilePath d) = files w (getStateFilePath d)" "faulty w' = faulty w"
  shows "readRalfreshState w' d = readRalfreshState w d"
  using assms by (simp add: readRalfreshState_alt split: option.splits content.splits)

lemma read_clearAll:
  "readRalfreshState (snd (clearAllRalfreshSubModes w d sid force)) d = readRalfreshState w d"
  by (rule read_cong) (simp_all add: clearAll_stateFile clearAll_frame)

lemma writable_clearAll:
  "writable (snd (clearAllRalfreshSubModes w d sid force)) d' = writable w d'"
  by (simp add: writable_def clearAll_frame)

lemma read_tick: "readRalfreshState (w\<lparr>clock := t\<rparr>) d = readRalfreshState w d"
  by (rule read_cong) simp_all

lemma terminalPhase_phaseName: "terminalPhase (phaseName q) = (q = complete \<or> q = failed)"
  by (cases q) (simp_all add: terminalPhase_def)

lemma numberToString_1: "numberToString 1 = ''1''"
  by code_simp

text \<open>Doubles beyond \<open>2^53\<close>: the sum is rounded, and the string is the shortest that reads back.\<close>

lemma numberToString_examples:
  "numberToString 1000000000000000000000 = ''1e+21''"
  "numberToString 9007199254740992 = ''9007199254740992''"
  "numberToString 1180591620717411303424 = ''1.1805916207174113e+21''"
  "numberToString 123456789012345683968 = ''123456789012345680000''"
  "numberToString (- 42) = ''-42''"
  "numberToString 0 = ''0''"
  by code_simp+

lemma jsPlusOne_examples:
  "jsPlusOne 9007199254740992 = 9007199254740992" "jsPlusOne 4 = 5" "jsPlusOne (-9007199254740992) = -9007199254740991"
  "jsPlusOne 9007199254740994 = 9007199254740996"
  by code_simp+

lemma jsPlusOne_safe:
  "- (2 ^ 53) \<le> n \<Longrightarrow> n < 2 ^ 53 \<Longrightarrow> jsPlusOne n = n + 1"
  by (simp add: jsPlusOne_def roundToDouble_def Let_def)

lemma increment_at_ceiling:
  assumes "readRalfreshState w d = Some s" "active s" "maxIterations s \<le> iteration s"
  shows "incrementRalfreshIteration w d sid = transitionRalfreshPhase w d failed"
  using assms by (simp add: incrementRalfreshIteration_def)

lemma increment_below:
  assumes "readRalfreshState w d = Some s" "active s" "iteration s < maxIterations s"
  shows "incrementRalfreshIteration w d sid =
     (case thenE (resetPhases (phases s))
             (\<lambda>p1. thenE (setPhaseMember p1 ''planning'' ''status'' (JStr ''in_progress''))
             (\<lambda>p2. setPhaseMember p2 ''planning'' ''startedAt'' (JStr (clock w)))) of
        Inl e \<Rightarrow> (Inl e, w)
      | Inr p3 \<Rightarrow>
          (if fst (writeRalfreshState (snd (clearAllRalfreshSubModes w d sid False)) d
                     (s\<lparr>iteration := jsPlusOne (iteration s), phase := ''planning'', phases := p3\<rparr>))
           then Inr (Some (s\<lparr>iteration := jsPlusOne (iteration s), phase := ''planning'', phases := p3\<rparr>))
           else Inr None,
           snd (writeRalfreshState (snd (clearAllRalfreshSubModes w d sid False)) d
                  (s\<lparr>iteration := jsPlusOne (iteration s), phase := ''planning'', phases := p3\<rparr>))))"
  using assms
  by (simp add: incrementRalfreshIteration_def Let_def split_beta split: sum.splits)

lemma increment_outcome:
  assumes "readRalfreshState w d = Some s"
  shows "incrementRalfreshIteration w d sid = (Inl TypeError, w) \<or>
         incrementRalfreshIteration w d sid = (Inr None, w) \<or>
         incrementRalfreshIteration w d sid = transitionRalfreshPhase w d failed \<or>
         (\<exists>s2. active s \<and> wfState s2 \<and> active s2 \<and> phase s2 = ''planning''
            \<and> completedAt s2 = completedAt s
            \<and> incrementRalfreshIteration w d sid =
                 (if fst (writeRalfreshState (snd (clearAllRalfreshSubModes w d sid False)) d s2)
                  then Inr (Some s2) else Inr None,
                  snd (writeRalfreshState (snd (clearAllRalfreshSubModes w d sid False)) d s2)))"
proof (cases "active s")
  case False
  with assms show ?thesis by (simp add: incrementRalfreshIteration_def)
next
  case act: True
  show ?thesis
  proof (cases "maxIterations s \<le> iteration s")
    case True
    with assms act show ?thesis by (simp add: increment_at_ceiling)
  next
    case False
    then have lt: "iteration s < maxIterations s" by simp
    let ?chain = "thenE (resetPhases (phases s))
             (\<lambda>p1. thenE (setPhaseMember p1 ''planning'' ''status'' (JStr ''in_progress''))
             (\<lambda>p2. setPhaseMember p2 ''planning'' ''startedAt'' (JStr (clock w))))"
    show ?thesis
    proof (cases ?chain)
      case (Inl e)
      then show ?thesis
        by (simp add: increment_below [OF assms act lt] js_error_eq [of e])
    next
      case (Inr p3)
      then have obj: "typeof (Some p3) = ''object''"
        by (auto simp: thenE_eq_Inr dest: setPhaseMember_typeof)
      from assms have "wfState s" by (rule read_wf)
      with obj act have "wfState (s\<lparr>iteration := jsPlusOne (iteration s), phase := ''planning'', phases := p3\<rparr>)
         \<and> active (s\<lparr>iteration := jsPlusOne (iteration s), phase := ''planning'', phases := p3\<rparr>)
         \<and> phase (s\<lparr>iteration := jsPlusOne (iteration s), phase := ''planning'', phases := p3\<rparr>) = ''planning''
         \<and> completedAt (s\<lparr>iteration := jsPlusOne (iteration s), phase := ''planning'', phases := p3\<rparr>)
             = completedAt s"
        by (simp add: wfState_def)
      with Inr act show ?thesis
        by (simp only: increment_below [OF assms act lt] sum.case) blast
    qed
  qed
qed

lemma invariant_after_write:
  assumes "wfState s2" "lifecycleInvariant s2"
    and "\<And>s. readRalfreshState w d = Some s \<Longrightarrow> lifecycleInvariant s"
    and "readRalfreshState (snd (writeRalfreshState w d s2)) d = Some s'"
  shows "lifecycleInvariant s'"
proof (cases "fst (writeRalfreshState w d s2)")
  case True
  with assms(1,2,4) show ?thesis by (simp add: write_success_read)
next
  case False
  with assms(3,4) show ?thesis by (simp add: write_failure_read)
qed

lemma invariant_transition:
  assumes inv: "\<And>s. readRalfreshState w d = Some s \<Longrightarrow> lifecycleInvariant s"
  shows "readRalfreshState (snd (transitionRalfreshPhase w d q)) d = Some s' \<Longrightarrow> lifecycleInvariant s'"
    and "fst (transitionRalfreshPhase w d q) = Inr (Some s') \<Longrightarrow> lifecycleInvariant s'"
proof -
  have both: "(readRalfreshState (snd (transitionRalfreshPhase w d q)) d = Some s' \<longrightarrow> lifecycleInvariant s')
      \<and> (fst (transitionRalfreshPhase w d q) = Inr (Some s') \<longrightarrow> lifecycleInvariant s')"
  proof (cases "readRalfreshState w d")
    case None
    then have "transitionRalfreshPhase w d q = (Inr None, w)"
      by (simp add: transitionRalfreshPhase_def)
    with None show ?thesis by simp
  next
    case (Some s)
    from transition_outcome [OF Some, of q]
    consider (same) "snd (transitionRalfreshPhase w d q) = w" "fst (transitionRalfreshPhase w d q) \<noteq> Inr (Some s')"
      | (written) s2 where "wfState s2" "phase s2 = phaseName q"
          "active s2 = (q \<noteq> complete \<and> q \<noteq> failed)"
          "q = complete \<or> q = failed \<longrightarrow> completedAt s2 = Some (JStr (clock w))"
          "transitionRalfreshPhase w d q =
                 (if fst (writeRalfreshState w d s2) then Inr (Some s2) else Inr None,
                  snd (writeRalfreshState w d s2))"
          "active s" "q \<noteq> complete \<and> q \<noteq> failed \<longrightarrow> completedAt s2 = completedAt s"
      by fastforce
    then show ?thesis
    proof cases
      case same
      with inv show ?thesis by simp
    next
      case written
      have i2: "lifecycleInvariant s2"
        using written(2,3,4,6,7) inv [OF Some]
        by (auto simp: lifecycleInvariant_def terminalPhase_phaseName)
      from invariant_after_write [OF written(1) i2 inv] i2 written(5)
      show ?thesis by (auto split: if_splits)
    qed
  qed
  from both show "readRalfreshState (snd (transitionRalfreshPhase w d q)) d = Some s' \<Longrightarrow> lifecycleInvariant s'"
    by simp
  from both show "fst (transitionRalfreshPhase w d q) = Inr (Some s') \<Longrightarrow> lifecycleInvariant s'"
    by simp
qed


lemma invariant_increment:
  assumes inv: "\<And>s. readRalfreshState w d = Some s \<Longrightarrow> lifecycleInvariant s"
  shows "readRalfreshState (snd (incrementRalfreshIteration w d sid)) d = Some s' \<Longrightarrow> lifecycleInvariant s'"
    and "fst (incrementRalfreshIteration w d sid) = Inr (Some s') \<Longrightarrow> lifecycleInvariant s'"
proof -
  have both: "(readRalfreshState (snd (incrementRalfreshIteration w d sid)) d = Some s' \<longrightarrow> lifecycleInvariant s')
      \<and> (fst (incrementRalfreshIteration w d sid) = Inr (Some s') \<longrightarrow> lifecycleInvariant s')"
  proof (cases "readRalfreshState w d")
    case None
    then have "incrementRalfreshIteration w d sid = (Inr None, w)"
      by (simp add: incrementRalfreshIteration_def)
    with None show ?thesis by simp
  next
    case (Some s)
    let ?w1 = "snd (clearAllRalfreshSubModes w d sid False)"
    from increment_outcome [OF Some, of sid]
    consider (same) "snd (incrementRalfreshIteration w d sid) = w" "fst (incrementRalfreshIteration w d sid) \<noteq> Inr (Some s')"
      | (ceiling) "incrementRalfreshIteration w d sid = transitionRalfreshPhase w d failed"
      | (written) s2 where "wfState s2" "active s2" "phase s2 = ''planning''"
          "incrementRalfreshIteration w d sid =
                 (if fst (writeRalfreshState ?w1 d s2) then Inr (Some s2) else Inr None,
                  snd (writeRalfreshState ?w1 d s2))"
          "active s" "completedAt s2 = completedAt s"
      by fastforce
    then show ?thesis
    proof cases
      case same
      with inv show ?thesis by simp
    next
      case ceiling
      with invariant_transition [of w d failed s', OF inv] show ?thesis by simp
    next
      case written
      have i2: "lifecycleInvariant s2"
        using written(2,3,5,6) inv [OF Some]
        by (auto simp: lifecycleInvariant_def terminalPhase_def)
      have inv1: "\<And>s. readRalfreshState ?w1 d = Some s \<Longrightarrow> lifecycleInvariant s"
        using inv by (simp add: read_clearAll)
      from invariant_after_write [OF written(1) i2 inv1] i2 written(4)
      show ?thesis by (auto split: if_splits)
    qed
  qed
  from both show "readRalfreshState (snd (incrementRalfreshIteration w d sid)) d = Some s' \<Longrightarrow> lifecycleInvariant s'"
    by simp
  from both show "fst (incrementRalfreshIteration w d sid) = Inr (Some s') \<Longrightarrow> lifecycleInvariant s'"
    by simp
qed

lemma invariant_learning:
  assumes inv: "\<And>s. readRalfreshState w d = Some s \<Longrightarrow> lifecycleInvariant s"
    and r: "readRalfreshState (snd (addRalfreshLearning w d text)) d = Some s'"
  shows "lifecycleInvariant s'"
proof (cases "readRalfreshState w d")
  case None
  then have "addRalfreshLearning w d text = (False, w)" by (simp add: addRalfreshLearning_def)
  with None r show ?thesis by simp
next
  case (Some s)
  let ?s1 = "s\<lparr>learnings := sliceLast MAX_LEARNINGS (learnings s @ [JStr (truncateEntry text)])\<rparr>"
  have wf: "wfState ?s1" using read_wf [OF Some] by simp
  have i1: "lifecycleInvariant ?s1" using inv [OF Some] by (simp add: lifecycleInvariant_def)
  from r have "readRalfreshState (snd (writeRalfreshState w d ?s1)) d = Some s'"
    by (simp add: addRalfreshLearning_result [OF Some])
  with invariant_after_write [OF wf i1, of w d s'] inv show ?thesis by blast
qed

lemma invariant_issue:
  assumes inv: "\<And>s. readRalfreshState w d = Some s \<Longrightarrow> lifecycleInvariant s"
    and r: "readRalfreshState (snd (addRalfreshIssue w d text)) d = Some s'"
  shows "lifecycleInvariant s'"
proof (cases "readRalfreshState w d")
  case None
  then have "addRalfreshIssue w d text = (False, w)" by (simp add: addRalfreshIssue_def)
  with None r show ?thesis by simp
next
  case (Some s)
  let ?s1 = "s\<lparr>issues := sliceLast MAX_ISSUES (issues s @ [JStr (truncateEntry text)])\<rparr>"
  have wf: "wfState ?s1" using read_wf [OF Some] by simp
  have i1: "lifecycleInvariant ?s1" using inv [OF Some] by (simp add: lifecycleInvariant_def)
  from r have "readRalfreshState (snd (writeRalfreshState w d ?s1)) d = Some s'"
    by (simp add: addRalfreshIssue_result [OF Some])
  with invariant_after_write [OF wf i1, of w d s'] inv show ?thesis by blast
qed

lemma invariant_init:
  assumes "fst (initRalfresh w d p sid cfg) = Inr (Some s)"
  shows "lifecycleInvariant s" and "readRalfreshState (snd (initRalfresh w d p sid cfg)) d = Some s"
proof -
  have len: "length p \<le> MAX_PROMPT_LENGTH"
  proof (rule ccontr)
    assume "\<not> length p \<le> MAX_PROMPT_LENGTH"
    then have "initRalfresh w d p sid cfg = (Inr None, w)" by (simp add: initRalfresh_rejects)
    with assms show False by simp
  qed
  have can: "canStartMode_allowed w ''ralfresh'' d"
  proof (rule ccontr)
    assume "\<not> canStartMode_allowed w ''ralfresh'' d"
    then have "initRalfresh w d p sid cfg = (Inr None, w)" by (simp add: initRalfresh_def)
    with assms show False by simp
  qed
  from initRalfresh_accepts [OF len can, of sid cfg]
  obtain s0 where s0: "initRalfresh w d p sid cfg =
           (if fst (writeRalfreshState w d s0) then Inr (Some s0) else Inr None,
            snd (writeRalfreshState w d s0))"
    "wfState s0" "active s0" "phase s0 = ''planning'' \<or> phase s0 = ''execution''"
    "completedAt s0 = Some JNull"
    by blast
  from assms s0(1) have ok: "fst (writeRalfreshState w d s0)" and eq: "s = s0"
    by (auto split: if_splits)
  from s0(3,4,5) show "lifecycleInvariant s"
    by (auto simp: eq lifecycleInvariant_def terminalPhase_def)
  from s0(1) ok write_success_read [OF s0(2) ok]
  show "readRalfreshState (snd (initRalfresh w d p sid cfg)) d = Some s"
    by (simp add: eq)
qed

lemma lifecycle_invariant:
  assumes "lifecycle d w"
  shows "readRalfreshState w d = Some s \<Longrightarrow> lifecycleInvariant s"
  using assms
proof (induction arbitrary: s rule: lifecycle.induct)
  case (started w p sid cfg s0)
  from invariant_init [OF started.hyps] started.prems show ?case by simp
next
  case (transitioned w q)
  from invariant_transition(1) [of w d q s] transitioned show ?case by blast
next
  case (incremented w sid)
  from invariant_increment(1) [of w d sid s] incremented show ?case by blast
next
  case (learned w entry)
  from invariant_learning [of w d entry s] learned show ?case by blast
next
  case (reported w entry)
  from invariant_issue [of w d entry s] reported show ?case by blast
next
  case (tick w t)
  then show ?case by (simp add: read_tick)
qed

lemma lifecycle_startedWorld: "lifecycle ''/proj'' startedWorld"
  unfolding startedWorld_def by (rule lifecycle.started [OF initRalfresh_example])

lemma lifecycle_completedWorld: "lifecycle ''/proj'' completedWorld"
  unfolding completedWorld_def by (intro lifecycle.transitioned lifecycle_startedWorld)

lemma read_startedWorld: "readRalfreshState startedWorld ''/proj'' = Some exampleState"
  unfolding startedWorld_def by (rule invariant_init(2) [OF initRalfresh_example])

text \<open>
  C5. In every world the lifecycle reaches, the stored instance satisfies
  \<open>active = false\<close> iff \<open>phase\<close> is terminal and \<open>completedAt\<close> is set, and moreover
  a terminal \<open>phase\<close> alone, or a set \<open>completedAt\<close> alone, already means
  \<open>active = false\<close>; so does every instance \<open>transitionRalfreshPhase\<close>,
  \<open>incrementRalfreshIteration\<close> or \<open>initRalfresh\<close> returns there.
  (\<open>addRalfreshLearning\<close> and \<open>addRalfreshIssue\<close> return a boolean; what they store is
  covered by the first part.)
\<close>

theorem C5_active_iff_not_terminal:
  assumes "lifecycle directory w"
  shows "(\<forall>s. readRalfreshState w directory = Some s \<longrightarrow> lifecycleInvariant s)
       \<and> (\<forall>q s. fst (transitionRalfreshPhase w directory q) = Inr (Some s) \<longrightarrow> lifecycleInvariant s)
       \<and> (\<forall>sid s. fst (incrementRalfreshIteration w directory sid) = Inr (Some s) \<longrightarrow> lifecycleInvariant s)
       \<and> (\<forall>p sid cfg s. fst (initRalfresh w directory p sid cfg) = Inr (Some s) \<longrightarrow> lifecycleInvariant s)"
proof -
  have inv: "\<And>s. readRalfreshState w directory = Some s \<Longrightarrow> lifecycleInvariant s"
    using assms by (rule lifecycle_invariant)
  show ?thesis
    using inv invariant_transition(2) [of w directory, OF inv]
      invariant_increment(2) [of w directory, OF inv] invariant_init(1) [of w directory]
    by blast
qed

theorem C5_active_iff_not_terminal_witness:
  "lifecycle ''/proj'' startedWorld \<and>
   readRalfreshState startedWorld ''/proj'' = Some exampleState \<and>
   active exampleState \<and> \<not> terminalPhase (phase exampleState) \<and>
   completedAt exampleState = Some JNull \<and>
   lifecycleInvariant exampleState \<and>
   lifecycle ''/proj'' completedWorld \<and>
   readRalfreshState completedWorld ''/proj'' = Some completedState \<and>
   \<not> active completedState \<and> terminalPhase (phase completedState) \<and>
   completedAt completedState = Some (JStr ''2026-01-01T10:00:00.000Z'') \<and>
   lifecycleInvariant completedState \<and>
   (\<exists>s. fst (transitionRalfreshPhase
               (snd (transitionRalfreshPhase
                 (snd (transitionRalfreshPhase
                   (snd (transitionRalfreshPhase startedWorld ''/proj'' execution))
                   ''/proj'' review))
                 ''/proj'' assess))
               ''/proj'' complete) = Inr (Some s)
        \<and> \<not> active s \<and> terminalPhase (phase s) \<and> lifecycleInvariant s) \<and>
   (\<exists>s. fst (incrementRalfreshIteration startedWorld ''/proj'' None) = Inr (Some s)
        \<and> lifecycleInvariant s) \<and>
   (\<exists>s. fst (initRalfresh startedWorld ''/proj'' ''once more'' None None) = Inr (Some s)
        \<and> lifecycleInvariant s)"
proof -
  let ?aw = "snd (transitionRalfreshPhase
                 (snd (transitionRalfreshPhase
                   (snd (transitionRalfreshPhase startedWorld ''/proj'' execution))
                   ''/proj'' review))
                 ''/proj'' assess)"
  have ls: "lifecycle ''/proj'' startedWorld" by (rule lifecycle_startedWorld)
  have la: "lifecycle ''/proj'' ?aw" by (intro lifecycle.transitioned ls)
  have lc: "lifecycle ''/proj'' completedWorld" by (rule lifecycle_completedWorld)
  have rs: "readRalfreshState startedWorld ''/proj'' = Some exampleState" by (rule read_startedWorld)
  have rc: "readRalfreshState completedWorld ''/proj'' = Some completedState" by (rule read_completedWorld)
  have es: "active exampleState \<and> \<not> terminalPhase (phase exampleState) \<and>
            completedAt exampleState = Some JNull"
    by (simp add: exampleState_def terminalPhase_def)
  have cs: "\<not> active completedState \<and> terminalPhase (phase completedState) \<and>
            completedAt completedState = Some (JStr ''2026-01-01T10:00:00.000Z'')"
    by (simp add: completedState_def terminalPhase_def)
  from C5_active_iff_not_terminal [OF ls] rs
  have i1: "lifecycleInvariant exampleState" by blast
  from C5_active_iff_not_terminal [OF lc] rc
  have i2: "lifecycleInvariant completedState" by blast
  from C5_active_iff_not_terminal [OF la] transition_complete_example
  have i3: "lifecycleInvariant completedState" by blast
  with transition_complete_example cs
  have e3: "\<exists>s. fst (transitionRalfreshPhase ?aw ''/proj'' complete) = Inr (Some s)
        \<and> \<not> active s \<and> terminalPhase (phase s) \<and> lifecycleInvariant s"
    by blast
  from increment_example obtain s4 where
    s4: "fst (incrementRalfreshIteration startedWorld ''/proj'' None) = Inr (Some s4)"
    by (auto split: sum.splits option.splits)
  with C5_active_iff_not_terminal [OF ls]
  have e4: "\<exists>s. fst (incrementRalfreshIteration startedWorld ''/proj'' None) = Inr (Some s)
        \<and> lifecycleInvariant s"
    by blast
  from init_again_example obtain s5 where
    s5: "fst (initRalfresh startedWorld ''/proj'' ''once more'' None None) = Inr (Some s5)"
    by (auto split: sum.splits option.splits)
  with C5_active_iff_not_terminal [OF ls]
  have e5: "\<exists>s. fst (initRalfresh startedWorld ''/proj'' ''once more'' None None) = Inr (Some s)
        \<and> lifecycleInvariant s"
    by blast
  from ls rs es i1 lc rc cs i2 e3 e4 e5 show ?thesis by (simp only: simp_thms)
qed


subsection \<open>Incrementing below the ceiling\<close>

lemma map_of_reset:
  "map_of (map (\<lambda>kv. (fst kv, c)) xs) k = (if k \<in> fst ` set xs then Some c else None)"
  by (induction xs) auto

lemma map_fst_reset: "map fst (map (\<lambda>kv. (fst kv, c)) xs) = map fst xs"
  by simp

lemma map_fst_update_present:
  "k \<in> fst ` set xs \<Longrightarrow> map fst (AList.update k v xs) = map fst xs"
  by (induction xs) auto

lemma key_in_update: "k \<in> fst ` set (AList.update k v xs)"
  by (induction xs) auto

lemma reset_then_start_planning:
  assumes "''planning'' \<in> fst ` set ph"
  shows "\<exists>ph'. thenE (resetPhases (JObj ph))
             (\<lambda>p1. thenE (setPhaseMember p1 ''planning'' ''status'' (JStr ''in_progress''))
             (\<lambda>p2. setPhaseMember p2 ''planning'' ''startedAt'' (JStr now))) = Inr (JObj ph')
         \<and> map fst ph' = map fst ph
         \<and> map_of ph' ''planning'' = Some (JObj [(''status'', JStr ''in_progress''), (''startedAt'', JStr now)])
         \<and> (\<forall>k \<in> fst ` set ph. k \<noteq> ''planning'' \<longrightarrow> map_of ph' k = Some (JObj [(''status'', JStr ''pending'')]))"
proof -
  let ?r = "map (\<lambda>kv. (fst kv, pendingPhase)) ph"
  let ?u1 = "AList.update ''planning'' (JObj [(''status'', JStr ''in_progress'')]) ?r"
  let ?u2 = "AList.update ''planning'' (JObj [(''status'', JStr ''in_progress''), (''startedAt'', JStr now)]) ?u1"
  have r: "map_of ?r ''planning'' = Some pendingPhase"
    using assms by (simp add: map_of_reset)
  have k1: "''planning'' \<in> fst ` set ?r" using assms by (simp add: image_image)
  have k2: "''planning'' \<in> fst ` set ?u1" by (rule key_in_update)
  have chain: "thenE (resetPhases (JObj ph))
             (\<lambda>p1. thenE (setPhaseMember p1 ''planning'' ''status'' (JStr ''in_progress''))
             (\<lambda>p2. setPhaseMember p2 ''planning'' ''startedAt'' (JStr now))) = Inr (JObj ?u2)"
    using r by (simp add: pendingPhase_def update_conv')
  have keys: "map fst ?u2 = map fst ph"
    using k1 k2 by (simp add: map_fst_update_present)
  have pl: "map_of ?u2 ''planning'' = Some (JObj [(''status'', JStr ''in_progress''), (''startedAt'', JStr now)])"
    by (simp add: update_conv')
  have others: "\<forall>k \<in> fst ` set ph. k \<noteq> ''planning'' \<longrightarrow> map_of ?u2 k = Some (JObj [(''status'', JStr ''pending'')])"
    by (auto simp: update_conv' map_of_reset pendingPhase_def)
  from chain keys pl others show ?thesis by blast
qed

lemma wfState_examples:
  "wfState ceilingState" "wfState lastAssessState" "wfState completedState" "wfState activeCompleteState"
  using wfState_exampleState
  by (simp_all add: wfState_def ceilingState_def lastAssessState_def completedState_def
      activeCompleteState_def)

text \<open>
  C4. For a persisted active instance with \<open>iteration < maxIterations\<close> whose
  \<open>phases\<close> map has a \<open>planning\<close> record, when the state file can be written:
  \<open>incrementRalfreshIteration\<close> returns the instance with \<open>iteration\<close> replaced by
  the double sum \<open>iteration + 1\<close>, \<open>phase\<close> planning and a new \<open>phases\<close> map, every other
  member as it was (so \<open>prompt\<close>, \<open>sessionId\<close>, \<open>learnings\<close> and \<open>issues\<close> are
  unchanged). For an \<open>iteration\<close> from \<open>-2^53\<close> up to \<open>2^53 - 1\<close>, which is where a
  double counts in steps of one, the new \<open>iteration\<close> is exactly one higher. The new map has the
  keys of the old one in the same order; its \<open>planning\<close> record is exactly
  \<open>{status: in_progress, startedAt: now}\<close> and every other record is exactly
  \<open>{status: pending}\<close>. The world it leaves is the one the sub-mode reaper leaves for
  this directory and session, with the instance then written into it; reading it
  back gives the returned instance.
\<close>

theorem C4_increment_resets_phases:
  assumes "readRalfreshState w directory = Some state"
    and "active state"
    and "iteration state < maxIterations state"
    and "phases state = JObj ph"
    and "''planning'' \<in> fst ` set ph"
    and "writable w directory"
  shows "\<exists>state' ph'.
           incrementRalfreshIteration w directory sid =
             (Inr (Some state'),
              snd (writeRalfreshState (snd (clearAllRalfreshSubModes w directory sid False)) directory state'))
         \<and> readRalfreshState (snd (incrementRalfreshIteration w directory sid)) directory = Some state'
         \<and> state' = state\<lparr>iteration := jsPlusOne (iteration state), phase := ''planning'',
                            phases := JObj ph'\<rparr>
         \<and> (- (2 ^ 53) \<le> iteration state \<and> iteration state < 2 ^ 53 \<longrightarrow>
               iteration state' = iteration state + 1)
         \<and> map fst ph' = map fst ph
         \<and> map_of ph' ''planning'' =
             Some (JObj [(''status'', JStr ''in_progress''), (''startedAt'', JStr (clock w))])
         \<and> (\<forall>k \<in> fst ` set ph. k \<noteq> ''planning'' \<longrightarrow>
               map_of ph' k = Some (JObj [(''status'', JStr ''pending'')]))
         \<and> prompt state' = prompt state \<and> sessionId state' = sessionId state
         \<and> learnings state' = learnings state \<and> issues state' = issues state"
proof -
  let ?w1 = "snd (clearAllRalfreshSubModes w directory sid False)"
  from reset_then_start_planning [OF assms(5), of "clock w"]
  obtain ph' where chain: "thenE (resetPhases (JObj ph))
             (\<lambda>p1. thenE (setPhaseMember p1 ''planning'' ''status'' (JStr ''in_progress''))
             (\<lambda>p2. setPhaseMember p2 ''planning'' ''startedAt'' (JStr (clock w)))) = Inr (JObj ph')"
    and keys: "map fst ph' = map fst ph"
    and pl: "map_of ph' ''planning'' = Some (JObj [(''status'', JStr ''in_progress''), (''startedAt'', JStr (clock w))])"
    and others: "\<forall>k \<in> fst ` set ph. k \<noteq> ''planning'' \<longrightarrow> map_of ph' k = Some (JObj [(''status'', JStr ''pending'')])"
    by blast
  define state' where "state' = state\<lparr>iteration := jsPlusOne (iteration state), phase := ''planning'',
                                      phases := JObj ph'\<rparr>"
  have wf: "wfState state'"
    using read_wf [OF assms(1)] by (simp add: state'_def wfState_def)
  have ok: "fst (writeRalfreshState ?w1 directory state')"
    using assms(6) by (simp add: writable_write writable_clearAll)
  have inc: "incrementRalfreshIteration w directory sid =
      (Inr (Some state'), snd (writeRalfreshState ?w1 directory state'))"
    using ok chain
    by (simp add: increment_below [OF assms(1,2,3)] assms(4) state'_def)
  have rd: "readRalfreshState (snd (incrementRalfreshIteration w directory sid)) directory = Some state'"
    using write_success_read [OF wf ok] by (simp add: inc)
  have same: "prompt state' = prompt state \<and> sessionId state' = sessionId state
         \<and> learnings state' = learnings state \<and> issues state' = issues state"
    by (simp add: state'_def)
  have one: "- (2 ^ 53) \<le> iteration state \<and> iteration state < 2 ^ 53 \<longrightarrow>
               iteration state' = iteration state + 1"
    by (simp add: state'_def jsPlusOne_safe)
  from inc rd keys pl others same one state'_def show ?thesis by blast
qed


theorem C4_increment_resets_phases_witness:
  "readRalfreshState (worldWith exampleState) ''/proj'' = Some exampleState \<and>
   active exampleState \<and>
   iteration exampleState < maxIterations exampleState \<and>
   phases exampleState = JObj examplePhases \<and>
   ''planning'' \<in> fst ` set examplePhases \<and>
   writable (worldWith exampleState) ''/proj'' \<and>
   - (2 ^ 53) \<le> iteration exampleState \<and> iteration exampleState < 2 ^ 53 \<and>
   (\<exists>state' ph'.
      incrementRalfreshIteration (worldWith exampleState) ''/proj'' None =
        (Inr (Some state'),
         snd (writeRalfreshState
                (snd (clearAllRalfreshSubModes (worldWith exampleState) ''/proj'' None False)) ''/proj'' state'))
      \<and> readRalfreshState (snd (incrementRalfreshIteration (worldWith exampleState) ''/proj'' None)) ''/proj''
            = Some state'
      \<and> iteration state' = 2 \<and> phase state' = ''planning'' \<and> phases state' = JObj ph'
      \<and> map_of ph' ''planning'' =
           Some (JObj [(''status'', JStr ''in_progress''),
                       (''startedAt'', JStr (clock (worldWith exampleState)))])
      \<and> map_of ph' ''execution'' = Some (JObj [(''status'', JStr ''pending'')])
      \<and> prompt state' = ''build a feature'')"
proof -
  have r: "readRalfreshState (worldWith exampleState) ''/proj'' = Some exampleState"
    by (rule read_worldWith [OF wfState_exampleState])
  have a: "active exampleState" by (simp add: exampleState_def)
  have i: "iteration exampleState < maxIterations exampleState" by (simp add: exampleState_def)
  have p: "phases exampleState = JObj examplePhases" by (simp add: exampleState_def)
  have k: "''planning'' \<in> fst ` set examplePhases" by (simp add: examplePhases_def)
  have k2: "''execution'' \<in> fst ` set examplePhases" by (simp add: examplePhases_def)
  have wr: "writable (worldWith exampleState) ''/proj''" by (rule writable_worldWith)
  from C4_increment_resets_phases [OF r a i p k wr, of None]
  obtain state' ph' where c:
      "incrementRalfreshIteration (worldWith exampleState) ''/proj'' None =
        (Inr (Some state'),
         snd (writeRalfreshState
                (snd (clearAllRalfreshSubModes (worldWith exampleState) ''/proj'' None False)) ''/proj'' state'))"
      "readRalfreshState (snd (incrementRalfreshIteration (worldWith exampleState) ''/proj'' None)) ''/proj''
            = Some state'"
      "state' = exampleState\<lparr>iteration := jsPlusOne (iteration exampleState), phase := ''planning'',
                              phases := JObj ph'\<rparr>"
      "map_of ph' ''planning'' =
           Some (JObj [(''status'', JStr ''in_progress''),
                       (''startedAt'', JStr (clock (worldWith exampleState)))])"
      "\<forall>k \<in> fst ` set examplePhases. k \<noteq> ''planning'' \<longrightarrow>
               map_of ph' k = Some (JObj [(''status'', JStr ''pending'')])"
      "- (2 ^ 53) \<le> iteration exampleState \<and> iteration exampleState < 2 ^ 53 \<longrightarrow>
               iteration state' = iteration exampleState + 1"
    by blast
  from c(5) k2 have e: "map_of ph' ''execution'' = Some (JObj [(''status'', JStr ''pending'')])"
    by auto
  have rg: "- (2 ^ 53) \<le> iteration exampleState \<and> iteration exampleState < 2 ^ 53"
    by (simp add: exampleState_def)
  with c(6) have "iteration state' = iteration exampleState + 1" by simp
  then have f1: "iteration state' = 2" by (simp add: exampleState_def)
  have f: "phase state' = ''planning'' \<and> phases state' = JObj ph'
      \<and> prompt state' = ''build a feature''"
    by (simp add: c(3) exampleState_def)
  from r a i p k wr rg c(1,2,4) e f1 f show ?thesis by blast
qed


subsection \<open>Incrementing at the ceiling\<close>

lemma transition_not_an_edge:
  assumes "readRalfreshState w d = Some s" "active s" "phase s = phaseName p" "(p, q) \<notin> phaseGraph"
  shows "transitionRalfreshPhase w d q = (Inr None, w)"
proof -
  obtain vs where vs: "map_of VALID_TRANSITIONS (phaseName p) = Some vs"
    using VALID_TRANSITIONS_defined by blast
  with assms(4) have "q \<notin> set vs" by (simp add: VALID_TRANSITIONS_phaseName)
  with assms(1-3) vs show ?thesis by (simp add: transitionRalfreshPhase_def)
qed

lemma read_after_write_cases:
  assumes "wfState s2" "readRalfreshState (snd (writeRalfreshState w d s2)) d = Some s'"
  shows "s' = s2 \<or> readRalfreshState w d = Some s'"
proof (cases "fst (writeRalfreshState w d s2)")
  case True
  with assms show ?thesis by (simp add: write_success_read)
next
  case False
  with assms show ?thesis by (simp add: write_failure_read)
qed

lemma transition_chain_ok:
  assumes "map_of kvs p = Some (JObj r1)" "map_of kvs q = Some (JObj r2)" "p \<noteq> q"
  shows "\<exists>p4. thenE (setPhaseMember (JObj kvs) p ''status'' (JStr ''complete''))
                 (\<lambda>p1. thenE (setPhaseMember p1 p ''completedAt'' (JStr now))
                 (\<lambda>p2. thenE (setPhaseMember p2 q ''status'' (JStr ''in_progress''))
                 (\<lambda>p3. setPhaseMember p3 q ''startedAt'' (JStr now)))) = Inr p4"
  using assms by (simp add: update_conv')

lemma transition_to_failed_from_assess:
  assumes "readRalfreshState w d = Some s" "active s" "phase s = ''assess''"
    and "phases s = JObj kvs" "map_of kvs ''assess'' = Some (JObj r1)" "map_of kvs ''failed'' = Some (JObj r2)"
    and "writable w d"
  shows "\<exists>s'. fst (transitionRalfreshPhase w d failed) = Inr (Some s')
            \<and> readRalfreshState (snd (transitionRalfreshPhase w d failed)) d = Some s'"
proof -
  obtain p4 where chain: "thenE (setPhaseMember (JObj kvs) ''assess'' ''status'' (JStr ''complete''))
                 (\<lambda>p1. thenE (setPhaseMember p1 ''assess'' ''completedAt'' (JStr (clock w)))
                 (\<lambda>p2. thenE (setPhaseMember p2 ''failed'' ''status'' (JStr ''in_progress''))
                 (\<lambda>p3. setPhaseMember p3 ''failed'' ''startedAt'' (JStr (clock w))))) = Inr p4"
    using transition_chain_ok [OF assms(5,6)] by auto
  then have obj: "typeof (Some p4) = ''object''"
    by (auto simp: thenE_eq_Inr dest: setPhaseMember_typeof)
  define s2 where "s2 = s\<lparr>phase := ''failed'', phases := p4, active := False, completedAt := Some (JStr (clock w))\<rparr>"
  have wf: "wfState s2" using read_wf [OF assms(1)] obj by (simp add: s2_def wfState_def)
  have ok: "fst (writeRalfreshState w d s2)" by (rule writable_write [OF assms(7)])
  have tr: "transitionRalfreshPhase w d failed = (Inr (Some s2), snd (writeRalfreshState w d s2))"
    using assms(1-4) chain ok
    by (simp add: transitionRalfreshPhase_def VALID_TRANSITIONS_def Let_def split_beta s2_def)
  with write_success_read [OF wf ok] show ?thesis by simp
qed

text \<open>
  C2, as the code has it. For a persisted active instance with
  \<open>iteration = maxIterations\<close>, \<open>incrementRalfreshIteration\<close> is
  \<open>transitionRalfreshPhase\<close> to \<open>failed\<close>, which the phase graph allows from assess
  only. So: every instance it returns has \<open>phase = failed\<close>, \<open>active = false\<close> and the
  iteration unchanged; whatever it leaves stored has the iteration unchanged (never
  \<open>maxIterations + 1\<close>); from the assess phase (phase records present, state file
  writable) it does return such an instance and stores it; from any other of the
  six phases it returns \<^verbatim>\<open>null\<close> and changes nothing.
\<close>

theorem C2_ceiling_forces_failed_transition:
  assumes "readRalfreshState w directory = Some state"
    and "active state"
    and "iteration state = maxIterations state"
  shows "incrementRalfreshIteration w directory sid = transitionRalfreshPhase w directory failed
       \<and> (\<forall>state'. fst (incrementRalfreshIteration w directory sid) = Inr (Some state') \<longrightarrow>
             phase state' = ''failed'' \<and> \<not> active state' \<and> iteration state' = iteration state)
       \<and> (\<forall>state'. readRalfreshState (snd (incrementRalfreshIteration w directory sid)) directory = Some state' \<longrightarrow>
             iteration state' = iteration state)
       \<and> (phase state = ''assess'' \<and> writable w directory \<and>
            (\<exists>kvs r1 r2. phases state = JObj kvs \<and> map_of kvs ''assess'' = Some (JObj r1)
                \<and> map_of kvs ''failed'' = Some (JObj r2)) \<longrightarrow>
          (\<exists>state'. fst (incrementRalfreshIteration w directory sid) = Inr (Some state')
             \<and> readRalfreshState (snd (incrementRalfreshIteration w directory sid)) directory = Some state'))
       \<and> (\<forall>p. phase state = phaseName p \<and> p \<noteq> assess \<longrightarrow>
             incrementRalfreshIteration w directory sid = (Inr None, w))"
proof -
  have eq: "incrementRalfreshIteration w directory sid = transitionRalfreshPhase w directory failed"
    using assms by (simp add: increment_at_ceiling)
  from transition_outcome [OF assms(1), of failed]
  consider (same) "transitionRalfreshPhase w directory failed = (Inl TypeError, w)
                   \<or> transitionRalfreshPhase w directory failed = (Inr None, w)"
    | (written) s2 where "wfState s2" "phase s2 = phaseName failed" "\<not> active s2"
        "iteration s2 = iteration state"
        "transitionRalfreshPhase w directory failed =
                 (if fst (writeRalfreshState w directory s2) then Inr (Some s2) else Inr None,
                  snd (writeRalfreshState w directory s2))"
    by fastforce
  then have ret: "(\<forall>state'. fst (transitionRalfreshPhase w directory failed) = Inr (Some state') \<longrightarrow>
             phase state' = ''failed'' \<and> \<not> active state' \<and> iteration state' = iteration state)
       \<and> (\<forall>state'. readRalfreshState (snd (transitionRalfreshPhase w directory failed)) directory = Some state' \<longrightarrow>
             iteration state' = iteration state)"
  proof cases
    case same
    with assms(1) show ?thesis by auto
  next
    case written
    have "\<And>s'. readRalfreshState (snd (writeRalfreshState w directory s2)) directory = Some s' \<Longrightarrow>
        iteration s' = iteration state"
      using read_after_write_cases [OF written(1)] written(4) assms(1) by fastforce
    with written show ?thesis by (auto split: if_splits)
  qed
  have yield: "phase state = ''assess'' \<and> writable w directory \<and>
            (\<exists>kvs r1 r2. phases state = JObj kvs \<and> map_of kvs ''assess'' = Some (JObj r1)
                \<and> map_of kvs ''failed'' = Some (JObj r2)) \<longrightarrow>
          (\<exists>state'. fst (transitionRalfreshPhase w directory failed) = Inr (Some state')
             \<and> readRalfreshState (snd (transitionRalfreshPhase w directory failed)) directory = Some state')"
    using transition_to_failed_from_assess [OF assms(1,2)] by blast
  have rej: "\<forall>p. phase state = phaseName p \<and> p \<noteq> assess \<longrightarrow>
             transitionRalfreshPhase w directory failed = (Inr None, w)"
  proof (intro allI impI)
    fix p assume p: "phase state = phaseName p \<and> p \<noteq> assess"
    then have "(p, failed) \<notin> phaseGraph" by (auto simp: phaseGraph_def)
    with p show "transitionRalfreshPhase w directory failed = (Inr None, w)"
      using transition_not_an_edge [OF assms(1,2)] by blast
  qed
  from ret yield rej show ?thesis unfolding eq by blast
qed

theorem C2_ceiling_forces_failed_transition_witness:
  "readRalfreshState (worldWith lastAssessState) ''/proj'' = Some lastAssessState \<and>
   active lastAssessState \<and>
   iteration lastAssessState = maxIterations lastAssessState \<and>
   phase lastAssessState = ''assess'' \<and>
   writable (worldWith lastAssessState) ''/proj'' \<and>
   incrementRalfreshIteration (worldWith lastAssessState) ''/proj'' None
     = transitionRalfreshPhase (worldWith lastAssessState) ''/proj'' failed \<and>
   (\<exists>state'. fst (incrementRalfreshIteration (worldWith lastAssessState) ''/proj'' None) = Inr (Some state')
      \<and> readRalfreshState (snd (incrementRalfreshIteration (worldWith lastAssessState) ''/proj'' None)) ''/proj''
           = Some state'
      \<and> phase state' = ''failed'' \<and> \<not> active state' \<and> iteration state' = 5)"
proof -
  have r: "readRalfreshState (worldWith lastAssessState) ''/proj'' = Some lastAssessState"
    by (rule read_worldWith [OF wfState_examples(2)])
  have a: "active lastAssessState" by (simp add: lastAssessState_def exampleState_def)
  have i: "iteration lastAssessState = maxIterations lastAssessState"
    by (simp add: lastAssessState_def exampleState_def)
  have i5: "iteration lastAssessState = 5" by (simp add: lastAssessState_def)
  have p: "phase lastAssessState = ''assess''" by (simp add: lastAssessState_def)
  have wr: "writable (worldWith lastAssessState) ''/proj''" by (rule writable_worldWith)
  have recs: "\<exists>kvs r1 r2. phases lastAssessState = JObj kvs \<and> map_of kvs ''assess'' = Some (JObj r1)
                \<and> map_of kvs ''failed'' = Some (JObj r2)"
    by (simp add: lastAssessState_def exampleState_def examplePhases_def)
  from C2_ceiling_forces_failed_transition [OF r a i, of None] p wr recs r a i i5
  show ?thesis by (simp only: simp_thms) metis
qed


text \<open>
  C2 as stated fails outside the assess phase: after
  \<^verbatim>\<open>initRalfresh(dir, prompt, undefined, { maxIterations: 1 })\<close> the stored instance is
  active with \<open>iteration = maxIterations\<close>, and \<open>incrementRalfreshIteration\<close> returns
  \<^verbatim>\<open>null\<close> for it, leaving it stored, active and planning.
\<close>

theorem C2_ceiling_outside_assess_counterexample:
  "readRalfreshState singleIterationWorld ''/proj'' = Some ceilingState \<and>
   active ceilingState \<and>
   iteration ceilingState = maxIterations ceilingState \<and>
   incrementRalfreshIteration singleIterationWorld ''/proj'' None = (Inr None, singleIterationWorld)"
proof -
  have r: "readRalfreshState singleIterationWorld ''/proj'' = Some ceilingState"
    by (rule read_singleIterationWorld)
  have a: "active ceilingState" by (simp add: ceilingState_def exampleState_def)
  have i: "iteration ceilingState = maxIterations ceilingState"
    by (simp add: ceilingState_def exampleState_def)
  have p: "phase ceilingState = phaseName planning" by (simp add: ceilingState_def exampleState_def)
  have e: "(planning, failed) \<notin> phaseGraph" by (simp add: phaseGraph_def)
  from i have "maxIterations ceilingState \<le> iteration ceilingState" by simp
  from increment_at_ceiling [OF r a this] transition_not_an_edge [OF r a p e] r a i
  show ?thesis by simp
qed

subsection \<open>The loop driver\<close>

lemma deleteGlobalFiles_None:
  "files w p = None \<Longrightarrow> files (snd (deleteGlobalFiles g sid force fs (b, w))) p = None"
proof (induction fs arbitrary: b w)
  case Nil
  then show ?case by simp
next
  case (Cons f fs)
  obtain b' w' where
    step: "deleteGlobalFiles g sid force (f # fs) (b, w) = deleteGlobalFiles g sid force fs (b', w')"
    and w': "w' = w \<or> w' = w\<lparr>files := (files w)(join g f := None)\<rparr>"
    using deleteGlobalFiles_step by blast
  from w' Cons.prems have "files w' p = None" by auto
  with Cons.IH [of w' b'] show ?case unfolding step by simp
qed

lemma clearAll_local_deleted:
  assumes "f \<in> set localFilesToDelete" "join (join (join d ''.omc'') ''state'') f \<notin> faulty w"
  shows "files (snd (clearAllRalfreshSubModes w d sid force)) (join (join (join d ''.omc'') ''state'') f) = None"
proof -
  let ?sd = "join (join d ''.omc'') ''state''"
  let ?l = "deleteLocalFiles ?sd localFilesToDelete (True, w)"
  from assms have l: "files (snd ?l) (join ?sd f) = None"
    by (intro deleteLocalFiles_deleted) auto
  have g: "\<And>h. files (snd (deleteGlobalFiles (join h ''.claude'') sid force globalFiles (fst ?l, snd ?l)))
      (join ?sd f) = None"
    using l by (rule deleteGlobalFiles_None)
  show ?thesis
    using l g
    by (auto simp: clearAllRalfreshSubModes_def Let_def split_beta split: option.splits)
qed

lemma clearRalfreshState_frame:
  "faulty (snd (clearRalfreshState w d)) = faulty w"
  by (auto simp: clearRalfreshState_def Let_def unlinkSync_def split: sum.splits option.splits if_splits)

lemma clearRalfreshState_deleted:
  "getStateFilePath d \<notin> faulty w \<Longrightarrow> files (snd (clearRalfreshState w d)) (getStateFilePath d) = None"
  by (auto simp: clearRalfreshState_def Let_def unlinkSync_def existsSync_def
      split: sum.splits option.splits if_splits)

lemma processRalfreshLoop_inactive:
  "(fst (processRalfreshLoop w sid directory) = None) =
     (\<not> isRalfreshActive w (case directory of Some dd \<Rightarrow> if dd \<noteq> [] then dd else cwd w | None \<Rightarrow> cwd w))"
  by (auto simp: processRalfreshLoop_def isRalfreshActive_def Let_def split_beta split: option.splits)

lemma processRalfreshLoop_null:
  "fst (processRalfreshLoop w sid directory) = None \<Longrightarrow> snd (processRalfreshLoop w sid directory) = w"
  by (auto simp: processRalfreshLoop_def Let_def split_beta split: option.splits if_splits)

lemma processRalfreshLoop_not_active:
  assumes "readRalfreshState w wd = Some s" "\<not> active s"
    and "wd = (case directory of Some dd \<Rightarrow> if dd \<noteq> [] then dd else cwd w | None \<Rightarrow> cwd w)"
  shows "processRalfreshLoop w sid directory = (None, w)"
  using assms(1,2)
  unfolding processRalfreshLoop_def assms(3) [symmetric] Let_def
  by simp

lemma processRalfreshLoop_terminal:
  assumes "readRalfreshState w wd = Some s" "active s" "terminalPhase (phase s)"
    and "wd = (case directory of Some dd \<Rightarrow> if dd \<noteq> [] then dd else cwd w | None \<Rightarrow> cwd w)"
  shows "processRalfreshLoop w sid directory =
     (Some \<lparr>shouldBlock = False,
            message =
              (if phase s = ''complete''
               then [0x2705]
                    @ codeUnits ('' Ralfresh completed successfully after ''
                        @ numberToString (iteration s) @ '' iteration(s).'')
               else [0x26A0, 0xFE0F]
                    @ codeUnits ('' Ralfresh failed after '' @ numberToString (iteration s)
                        @ '' iteration(s). Max iterations reached.'')),
            result_phase = phase s,
            metadata_iteration = iteration s,
            metadata_maxIterations = maxIterations s\<rparr>,
      snd (clearAllRalfreshSubModes (snd (clearRalfreshState w wd)) wd sid False))"
  using assms(1-3)
  unfolding processRalfreshLoop_def assms(4) [symmetric] Let_def
  by (simp add: split_beta terminalPhase_def)

text \<open>
  C3, as the code has it. For a persisted instance that is active and whose phase
  is terminal, \<open>processRalfreshLoop\<close> returns a decision with \<open>shouldBlock = false\<close>,
  the success or failure summary, the phase, and \<open>iteration\<close> and \<open>maxIterations\<close>
  as metadata; the world it leaves is the one \<open>clearRalfreshState\<close> and then the
  sub-mode reaper leave, in which the state file and every local sub-mode file are
  gone unless their paths are faulty. It returns \<^verbatim>\<open>null\<close> exactly when no active
  instance exists, and whenever it returns \<^verbatim>\<open>null\<close> it leaves the world as it was.
  That is the case for every stored instance with \<open>active = false\<close>, and so for
  every instance in a terminal phase that the lifecycle operations have stored.
\<close>

theorem C3_active_terminal_allows_stop:
  assumes "workingDir = (case directory of Some dd \<Rightarrow> if dd \<noteq> [] then dd else cwd w | None \<Rightarrow> cwd w)"
  shows "(\<forall>state. readRalfreshState w workingDir = Some state \<and> active state \<and> terminalPhase (phase state) \<longrightarrow>
            fst (processRalfreshLoop w sid directory) =
              Some \<lparr>shouldBlock = False,
                    message =
                      (if phase state = ''complete''
                       then [0x2705]
                            @ codeUnits ('' Ralfresh completed successfully after ''
                                @ numberToString (iteration state) @ '' iteration(s).'')
                       else [0x26A0, 0xFE0F]
                            @ codeUnits ('' Ralfresh failed after '' @ numberToString (iteration state)
                                @ '' iteration(s). Max iterations reached.'')),
                    result_phase = phase state,
                    metadata_iteration = iteration state,
                    metadata_maxIterations = maxIterations state\<rparr>
            \<and> snd (processRalfreshLoop w sid directory) =
                snd (clearAllRalfreshSubModes (snd (clearRalfreshState w workingDir)) workingDir sid False)
            \<and> (getStateFilePath workingDir \<notin> faulty w \<longrightarrow>
                 files (snd (processRalfreshLoop w sid directory)) (getStateFilePath workingDir) = None
                 \<and> readRalfreshState (snd (processRalfreshLoop w sid directory)) workingDir = None)
            \<and> (\<forall>f \<in> set localFilesToDelete.
                 join (join (join workingDir ''.omc'') ''state'') f \<notin> faulty w \<longrightarrow>
                 files (snd (processRalfreshLoop w sid directory))
                   (join (join (join workingDir ''.omc'') ''state'') f) = None))
       \<and> ((fst (processRalfreshLoop w sid directory) = None) = (\<not> isRalfreshActive w workingDir))
       \<and> (fst (processRalfreshLoop w sid directory) = None \<longrightarrow>
            snd (processRalfreshLoop w sid directory) = w)
       \<and> (\<forall>state. readRalfreshState w workingDir = Some state \<and> \<not> active state \<longrightarrow>
            processRalfreshLoop w sid directory = (None, w))
       \<and> (\<forall>state. lifecycle workingDir w \<and> readRalfreshState w workingDir = Some state
                   \<and> terminalPhase (phase state) \<longrightarrow>
            \<not> active state \<and> processRalfreshLoop w sid directory = (None, w))"
  (is "?purge \<and> ?null \<and> ?unchanged \<and> ?inactive \<and> ?reached")
proof -
  have c1: ?purge
  proof (intro allI impI)
  fix state
  assume a: "readRalfreshState w workingDir = Some state \<and> active state \<and> terminalPhase (phase state)"
  let ?w0 = "snd (clearRalfreshState w workingDir)"
  let ?sd = "join (join workingDir ''.omc'') ''state''"
  have res: "processRalfreshLoop w sid directory =
     (Some \<lparr>shouldBlock = False,
            message =
              (if phase state = ''complete''
               then [0x2705]
                    @ codeUnits ('' Ralfresh completed successfully after ''
                        @ numberToString (iteration state) @ '' iteration(s).'')
               else [0x26A0, 0xFE0F]
                    @ codeUnits ('' Ralfresh failed after '' @ numberToString (iteration state)
                        @ '' iteration(s). Max iterations reached.'')),
            result_phase = phase state,
            metadata_iteration = iteration state,
            metadata_maxIterations = maxIterations state\<rparr>,
      snd (clearAllRalfreshSubModes ?w0 workingDir sid False))"
    using a assms by (intro processRalfreshLoop_terminal) simp_all
  have w': "snd (processRalfreshLoop w sid directory) =
                snd (clearAllRalfreshSubModes ?w0 workingDir sid False)"
    by (simp add: res)
  have gone: "files (snd (processRalfreshLoop w sid directory)) (getStateFilePath workingDir) = None"
    if "getStateFilePath workingDir \<notin> faulty w"
    using clearRalfreshState_deleted [OF that] by (simp add: w' clearAll_stateFile)
  have unread: "readRalfreshState (snd (processRalfreshLoop w sid directory)) workingDir = None"
    if "getStateFilePath workingDir \<notin> faulty w"
    using gone [OF that] by (simp add: readRalfreshState_alt)
  have reaped: "files (snd (processRalfreshLoop w sid directory)) (join ?sd f) = None"
    if "f \<in> set localFilesToDelete" "join ?sd f \<notin> faulty w" for f
  proof -
    from that(2) have "join ?sd f \<notin> faulty ?w0" by (simp add: clearRalfreshState_frame)
    with that(1) show ?thesis unfolding w' by (rule clearAll_local_deleted)
  qed
  from res w' gone unread reaped
  show "fst (processRalfreshLoop w sid directory) =
              Some \<lparr>shouldBlock = False,
                    message =
                      (if phase state = ''complete''
                       then [0x2705]
                            @ codeUnits ('' Ralfresh completed successfully after ''
                                @ numberToString (iteration state) @ '' iteration(s).'')
                       else [0x26A0, 0xFE0F]
                            @ codeUnits ('' Ralfresh failed after '' @ numberToString (iteration state)
                                @ '' iteration(s). Max iterations reached.'')),
                    result_phase = phase state,
                    metadata_iteration = iteration state,
                    metadata_maxIterations = maxIterations state\<rparr>
            \<and> snd (processRalfreshLoop w sid directory) =
                snd (clearAllRalfreshSubModes (snd (clearRalfreshState w workingDir)) workingDir sid False)
            \<and> (getStateFilePath workingDir \<notin> faulty w \<longrightarrow>
                 files (snd (processRalfreshLoop w sid directory)) (getStateFilePath workingDir) = None
                 \<and> readRalfreshState (snd (processRalfreshLoop w sid directory)) workingDir = None)
            \<and> (\<forall>f \<in> set localFilesToDelete.
                 join (join (join workingDir ''.omc'') ''state'') f \<notin> faulty w \<longrightarrow>
                 files (snd (processRalfreshLoop w sid directory))
                   (join (join (join workingDir ''.omc'') ''state'') f) = None)"
    by simp
  qed
  have c2: ?null
    unfolding assms by (rule processRalfreshLoop_inactive)
  have c3: ?unchanged
    by (intro impI) (rule processRalfreshLoop_null)
  have off: "processRalfreshLoop w sid directory = (None, w)"
    if "readRalfreshState w workingDir = Some state" "\<not> active state" for state
    using that assms by (intro processRalfreshLoop_not_active [of w workingDir state]) simp_all
  have c4: ?inactive
    using off by blast
  have c5: ?reached
  proof (intro allI impI)
    fix state
    assume a: "lifecycle workingDir w \<and> readRalfreshState w workingDir = Some state
                   \<and> terminalPhase (phase state)"
    then have "lifecycleInvariant state" using lifecycle_invariant by blast
    with a have na: "\<not> active state" by (simp add: lifecycleInvariant_def)
    with a off show "\<not> active state \<and> processRalfreshLoop w sid directory = (None, w)"
      by blast
  qed
  show ?thesis
    by (intro conjI) (fact c1 c2 c3 c4 c5)+
qed

theorem C3_active_terminal_allows_stop_witness:
  "''/proj'' = (case Some ''/proj'' of Some dd \<Rightarrow> if dd \<noteq> [] then dd else cwd (worldWith activeCompleteState)
                | None \<Rightarrow> cwd (worldWith activeCompleteState)) \<and>
   readRalfreshState (worldWith activeCompleteState) ''/proj'' = Some activeCompleteState \<and>
   active activeCompleteState \<and> terminalPhase (phase activeCompleteState) \<and>
   getStateFilePath ''/proj'' \<notin> faulty (worldWith activeCompleteState) \<and>
   fst (processRalfreshLoop (worldWith activeCompleteState) None (Some ''/proj'')) =
     Some \<lparr>shouldBlock = False,
           message = [0x2705] @ codeUnits '' Ralfresh completed successfully after 1 iteration(s).'',
           result_phase = ''complete'',
           metadata_iteration = 1,
           metadata_maxIterations = 5\<rparr> \<and>
   readRalfreshState (snd (processRalfreshLoop (worldWith activeCompleteState) None (Some ''/proj''))) ''/proj''
     = None \<and>
   lifecycle ''/proj'' completedWorld \<and>
   readRalfreshState completedWorld ''/proj'' = Some completedState \<and>
   terminalPhase (phase completedState) \<and>
   \<not> active completedState \<and>
   fst (processRalfreshLoop completedWorld None None) = None \<and>
   snd (processRalfreshLoop completedWorld None None) = completedWorld"
proof -
  have d: "''/proj'' = (case Some ''/proj'' of Some dd \<Rightarrow> if dd \<noteq> [] then dd else cwd (worldWith activeCompleteState)
                | None \<Rightarrow> cwd (worldWith activeCompleteState))"
    by simp
  have r: "readRalfreshState (worldWith activeCompleteState) ''/proj'' = Some activeCompleteState"
    by (rule read_worldWith [OF wfState_examples(4)])
  have a: "active activeCompleteState" by (simp add: activeCompleteState_def exampleState_def)
  have t: "terminalPhase (phase activeCompleteState)"
    by (simp add: activeCompleteState_def terminalPhase_def)
  have nf: "getStateFilePath ''/proj'' \<notin> faulty (worldWith activeCompleteState)"
    by (simp add: worldWith_def exampleWorld_def)
  have f: "phase activeCompleteState = ''complete''" "iteration activeCompleteState = 1"
    "maxIterations activeCompleteState = 5"
    by (simp_all add: activeCompleteState_def exampleState_def)
  note q = C3_active_terminal_allows_stop [OF d, of None, THEN conjunct1, rule_format, OF conjI [OF r conjI [OF a t]]]
  have q1: "fst (processRalfreshLoop (worldWith activeCompleteState) None (Some ''/proj'')) =
     Some \<lparr>shouldBlock = False,
           message = [0x2705] @ codeUnits '' Ralfresh completed successfully after 1 iteration(s).'',
           result_phase = ''complete'',
           metadata_iteration = 1,
           metadata_maxIterations = 5\<rparr>"
    using q [THEN conjunct1] by (simp add: f numberToString_1 codeUnits_def)
  have q2: "readRalfreshState (snd (processRalfreshLoop (worldWith activeCompleteState) None (Some ''/proj''))) ''/proj''
     = None"
    by (rule q [THEN conjunct2, THEN conjunct2, THEN conjunct1, rule_format, OF nf, THEN conjunct2])
  have d': "''/proj'' = (case None of Some dd \<Rightarrow> if dd \<noteq> [] then dd else cwd completedWorld
                | None \<Rightarrow> cwd completedWorld)"
    by code_simp
  have lc: "lifecycle ''/proj'' completedWorld" by (rule lifecycle_completedWorld)
  have r': "readRalfreshState completedWorld ''/proj'' = Some completedState"
    by (rule read_completedWorld)
  have t': "terminalPhase (phase completedState)"
    by (simp add: completedState_def terminalPhase_def)
  note p = C3_active_terminal_allows_stop [OF d', of None, THEN conjunct2, THEN conjunct2]
  from p [THEN conjunct2, THEN conjunct2, rule_format, OF conjI [OF lc conjI [OF r' t']]]
  have q3: "\<not> active completedState"
    and q4: "processRalfreshLoop completedWorld None None = (None, completedWorld)"
    by simp_all
  from q4 have q5: "fst (processRalfreshLoop completedWorld None None) = None" by simp
  from p [THEN conjunct1, rule_format, OF q5]
  have q6: "snd (processRalfreshLoop completedWorld None None) = completedWorld" .
  note q1 q2 lc r' t' q3 q5 q6
  with d r a t nf show ?thesis by (simp only: simp_thms)
qed


text \<open>
  C3 as stated fails for the terminal instances the lifecycle produces, which have
  \<open>active = false\<close>: after \<^verbatim>\<open>initRalfresh\<close> and the transitions to execution, review,
  assess and complete, the stored instance is in phase complete, and
  \<open>processRalfreshLoop\<close> returns \<^verbatim>\<open>null\<close> and leaves the world, state file included,
  as it was.
\<close>

theorem C3_inactive_terminal_counterexample:
  "readRalfreshState completedWorld ''/proj'' = Some completedState \<and>
   phase completedState = ''complete'' \<and>
   processRalfreshLoop completedWorld None (Some ''/proj'') = (None, completedWorld)"
proof -
  have r: "readRalfreshState completedWorld ''/proj'' = Some completedState"
    by (rule read_completedWorld)
  have p: "phase completedState = ''complete''" by (simp add: completedState_def)
  have a: "\<not> active completedState" by (simp add: completedState_def)
  have "processRalfreshLoop completedWorld None (Some ''/proj'') = (None, completedWorld)"
    using r a by (simp add: processRalfreshLoop_def)
  with r p show ?thesis by simp
qed

end
